theory Spec2Isabelle
  imports Main
begin

section \<open>Values stored in a Set and their property keys\<close>

text \<open>
  The Set of \<^verbatim>\<open>src/js/script.js\<close> keeps its elements as the own properties of a
  plain JavaScript object \<^verbatim>\<open>this.data = {}\<close>: the property name is the string
  conversion of the element, the property value is the element as it was passed.
  The header of the file names the supported elements: strings, numbers and other
  values identified by their string conversion, not arrays or objects. The model has
  strings and integral numbers: \<open>Num i\<close> stands for a number of magnitude below
  \<open>2 ^ 53\<close>, which a JavaScript number holds exactly and converts to its decimal
  numeral. Larger numbers (rounded, and in exponent notation from \<open>10 ^ 21\<close> on) are
  not modelled; the script itself stores strings only.
\<close>

datatype elem = Str string | Num int

definition digit_char :: "int \<Rightarrow> char" where
  "digit_char n = char_of (48 + n)"

function string_of_nonneg :: "int \<Rightarrow> string" where
  "string_of_nonneg n =
     (if n < 10 then [digit_char n]
      else string_of_nonneg (n div 10) @ [digit_char (n mod 10)])"
  by pat_completeness auto
termination
  by (relation "measure nat") auto

definition string_of_int :: "int \<Rightarrow> string" where
  "string_of_int i = (if i < 0 then CHR ''-'' # string_of_nonneg (- i) else string_of_nonneg i)"

text \<open>\<^verbatim>\<open>data[key]\<close> converts \<^verbatim>\<open>key\<close> to a property name.\<close>

fun toKey :: "elem \<Rightarrow> string" where
  "toKey (Str s) = s"
| "toKey (Num i) = string_of_int i"

section \<open>The object behind \<^verbatim>\<open>this.data\<close>\<close>

text \<open>
  An object is the list of its own properties in the order in which
  \<^verbatim>\<open>for (var key in this.data)\<close> visits them: array indices (canonical numerals
  below \<open>2^32 - 1\<close>) in ascending order first, then every other name in the order
  of creation.
\<close>

type_synonym jsobj = "(string \<times> elem) list"

definition is_digit :: "char \<Rightarrow> bool" where
  "is_digit c = (c \<in> set ''0123456789'')"

definition digits_val :: "string \<Rightarrow> int" where
  "digits_val s = foldl (\<lambda>a c. 10 * a + (of_char c - 48)) 0 s"

definition array_index :: "string \<Rightarrow> int option" where
  "array_index k =
     (if k = [] then None
      else if \<not> list_all is_digit k then None
      else if string_of_nonneg (digits_val k) \<noteq> k then None
      else if digits_val k < 4294967295 then Some (digits_val k)
      else None)"

definition comes_before :: "string \<Rightarrow> string \<Rightarrow> bool" where
  "comes_before k k' =
     (case array_index k of
        None \<Rightarrow> False
      | Some n \<Rightarrow> (case array_index k' of None \<Rightarrow> True | Some m \<Rightarrow> n < m))"

fun obj_insert :: "string \<Rightarrow> elem \<Rightarrow> jsobj \<Rightarrow> jsobj" where
  "obj_insert k v [] = [(k, v)]"
| "obj_insert k v ((k', v') # d) =
     (if comes_before k k' then (k, v) # (k', v') # d else (k', v') # obj_insert k v d)"

definition obj_hasOwn :: "jsobj \<Rightarrow> string \<Rightarrow> bool" where
  "obj_hasOwn d k = (k \<in> set (map fst d))"

text \<open>
  \<^verbatim>\<open>data[k] = v\<close>. An existing own property keeps its place and takes the new
  value; a new one is created. The name \<^verbatim>\<open>__proto__\<close> is the exception: the
  object inherits an accessor of that name from \<^verbatim>\<open>Object.prototype\<close>, the
  assignment calls its setter, and the setter ignores a value that is neither an
  object nor null. No own property is created.
\<close>

definition obj_put :: "string \<Rightarrow> elem \<Rightarrow> jsobj \<Rightarrow> jsobj" where
  "obj_put k v d =
     (if k = ''__proto__'' then d
      else if obj_hasOwn d k then map (\<lambda>(k', v'). if k' = k then (k', v) else (k', v')) d
      else obj_insert k v d)"

text \<open>\<^verbatim>\<open>delete data[k]\<close>.\<close>

definition obj_delete :: "string \<Rightarrow> jsobj \<Rightarrow> jsobj" where
  "obj_delete k d = filter (\<lambda>(k', v'). k' \<noteq> k) d"

section \<open>Set.prototype\<close>

datatype jsset = JsSet (data: jsobj)

text \<open>
  One argument of \<^verbatim>\<open>add\<close>, of the constructor or of a binary operation: a single
  key, an array of keys, or another Set.
\<close>

datatype arg = Val elem | Arr "elem list" | SetArg jsset

definition priv_makeKey :: "elem \<Rightarrow> elem" where
  "priv_makeKey a = a"

definition priv_getKey :: "elem \<Rightarrow> elem" where
  "priv_getKey a = a"

text \<open>\<^verbatim>\<open>_add(key, val)\<close>; \<open>None\<close> is the omitted second argument.\<close>

definition priv_add :: "elem \<Rightarrow> elem option \<Rightarrow> jsset \<Rightarrow> jsset" where
  "priv_add key val this =
     (let val' = (case val of None \<Rightarrow> key | Some v \<Rightarrow> v)
      in JsSet (obj_put (toKey (priv_makeKey key)) val' (data this)))"

definition priv_removeItem :: "elem \<Rightarrow> jsset \<Rightarrow> jsset" where
  "priv_removeItem key this = JsSet (obj_delete (toKey (priv_getKey key)) (data this))"

definition has :: "jsset \<Rightarrow> elem \<Rightarrow> bool" where
  "has this key = obj_hasOwn (data this) (toKey (priv_makeKey key))"

text \<open>
  \<^verbatim>\<open>eachReturn(fn)\<close>. The callbacks of the source are closures that update
  variables of the enclosing function; here a callback takes the value, the key and
  the state of those variables and returns the new state, with \<open>False\<close> when the
  source's callback returns \<^verbatim>\<open>false\<close> (which stops the iteration).
\<close>

fun eachReturn_loop ::
  "(elem \<Rightarrow> string \<Rightarrow> 's \<Rightarrow> bool \<times> 's) \<Rightarrow> jsset \<Rightarrow> jsobj \<Rightarrow> 's \<Rightarrow> bool \<times> 's" where
  "eachReturn_loop fn this [] s = (True, s)"
| "eachReturn_loop fn this ((key, v) # rest) s =
     (if has this (Str key) then
        (case fn v key s of
           (False, s') \<Rightarrow> (False, s')
         | (True, s') \<Rightarrow> eachReturn_loop fn this rest s')
      else eachReturn_loop fn this rest s)"

definition eachReturn ::
  "(elem \<Rightarrow> string \<Rightarrow> 's \<Rightarrow> bool \<times> 's) \<Rightarrow> jsset \<Rightarrow> 's \<Rightarrow> bool \<times> 's" where
  "eachReturn fn this s = eachReturn_loop fn this (data this) s"

text \<open>\<^verbatim>\<open>each(fn)\<close> with a callback that returns nothing: it never stops.\<close>

definition each :: "(elem \<Rightarrow> string \<Rightarrow> 's \<Rightarrow> 's) \<Rightarrow> jsset \<Rightarrow> 's \<Rightarrow> 's" where
  "each fn this s = snd (eachReturn (\<lambda>v key s. (True, fn v key s)) this s)"

fun add_arg :: "arg \<Rightarrow> jsset \<Rightarrow> jsset" where
  "add_arg (Arr ks) this = fold (\<lambda>k self. priv_add k None self) ks this"
| "add_arg (SetArg other) this =
     each (\<lambda>val key self. priv_add (Str key) (Some val) self) other this"
| "add_arg (Val k) this = priv_add k None this"

definition add :: "arg list \<Rightarrow> jsset \<Rightarrow> jsset" where
  "add args this = fold add_arg args this"

fun remove_arg :: "arg \<Rightarrow> jsset \<Rightarrow> jsset" where
  "remove_arg (Arr ks) this = fold priv_removeItem ks this"
| "remove_arg (Val k) this = priv_removeItem k this"
| "remove_arg (SetArg other) this = JsSet (obj_delete ''[object Object]'' (data this))"

definition remove_set :: "arg list \<Rightarrow> jsset \<Rightarrow> jsset" where
  "remove_set args this = fold remove_arg args this"

text \<open>\<^verbatim>\<open>new Set(...)\<close> and \<^verbatim>\<open>makeNew(...)\<close>.\<close>

definition new_Set :: "arg list \<Rightarrow> jsset" where
  "new_Set args = add args (JsSet [])"

definition makeNew :: "arg list \<Rightarrow> jsset" where
  "makeNew args = (let newSet = new_Set [] in if args \<noteq> [] then add args newSet else newSet)"

fun makeSet :: "arg \<Rightarrow> jsset" where
  "makeSet (SetArg s) = s"
| "makeSet a = makeNew [a]"

fun isEmpty_loop :: "jsset \<Rightarrow> jsobj \<Rightarrow> bool" where
  "isEmpty_loop this [] = True"
| "isEmpty_loop this ((key, v) # rest) =
     (if has this (Str key) then False else isEmpty_loop this rest)"

definition isEmpty :: "jsset \<Rightarrow> bool" where
  "isEmpty this = isEmpty_loop this (data this)"

definition keys :: "jsset \<Rightarrow> elem list" where
  "keys this = each (\<lambda>data key results. results @ [data]) this []"

definition clear :: "jsset \<Rightarrow> jsset" where
  "clear this = JsSet []"

definition isSubset :: "jsset \<Rightarrow> arg \<Rightarrow> bool" where
  "isSubset this other =
     (let otherSet = makeSet other
      in fst (eachReturn (\<lambda>data key u. (has otherSet (Str key), u)) this ()))"

definition isSuperset :: "jsset \<Rightarrow> arg \<Rightarrow> bool" where
  "isSuperset this other =
     (let otherSet = makeSet other
      in fst (eachReturn (\<lambda>data key u. (has this (Str key), u)) otherSet ()))"

definition equals :: "jsset \<Rightarrow> arg \<Rightarrow> bool" where
  "equals this other =
     (let otherSet = makeSet other
      in isSubset this (SetArg otherSet) \<and> isSuperset this (SetArg otherSet))"

definition union_set :: "jsset \<Rightarrow> arg \<Rightarrow> jsset" where
  "union_set this other =
     (let otherSet = makeSet other;
          newSet = makeNew [SetArg this]
      in add [SetArg otherSet] newSet)"

definition intersection :: "jsset \<Rightarrow> arg \<Rightarrow> jsset" where
  "intersection this other =
     (let otherSet = makeSet other;
          newSet = makeNew []
      in each (\<lambda>data key newSet.
                 if has otherSet (Str key) then priv_add (Str key) (Some data) newSet
                 else newSet) this newSet)"

definition difference :: "jsset \<Rightarrow> arg \<Rightarrow> jsset" where
  "difference this other =
     (let otherSet = makeSet other;
          newSet = makeNew []
      in each (\<lambda>data key newSet.
                 if \<not> has otherSet (Str key) then priv_add (Str key) (Some data) newSet
                 else newSet) this newSet)"

section \<open>The knowledge base: the global variables of the script\<close>

text \<open>
  The global Sets of lines 340 to 373, in the order of their declaration, each built
  by the constructor from the arguments the source gives it (one array, or a list of
  strings).
\<close>

definition strs :: "string list \<Rightarrow> arg" where
  "strs xs = Arr (map Str xs)"

definition vals :: "string list \<Rightarrow> arg list" where
  "vals xs = map (\<lambda>x. Val (Str x)) xs"

definition ddx_list :: jsset where
  "ddx_list =
     new_Set (vals [''R INO'', ''L INO'', ''R CN III Palsy'', ''L CN III Palsy'',
        ''R CN IV Palsy'', ''L CN IV Palsy'', ''R CN VI Palsy'', ''L CN VI Palsy'',
        ''Intracranial Aneurysm'', ''Cavernous Sinus'', ''Horner'',
        ''Midbrain at the Level of the Superior Cerebellar Peduncle'', ''Dorsal Pons'',
        ''Base of the Midbrain'', ''Increased ICP'', ''Tegmentum of the Midbrain''])"

definition script_globals_list :: "(string \<times> jsset) list" where
  "script_globals_list =
   [(''all'', new_Set [strs [''R MR'', ''L MR'', ''R SR'', ''L SR'', ''R IR'', ''L IR'', ''R LR'',
        ''L LR'', ''R SO'', ''L SO'', ''R IO'', ''L IO'', ''R MLF'', ''L MLF'']]),
    (''horizontal_LZ'', new_Set [strs [''R MR'', ''R LR'', ''L MR'', ''L LR'', ''L MLF'', ''R MLF'']]),
    (''diagonal_LZ'', new_Set [strs [''R IO'', ''L IO'', ''R SR'', ''L SR'', ''R IR'', ''L IR'']]),
    (''vertical_LZ'', new_Set [strs [''L IO'', ''R IO'', ''L SO'', ''R SO'', ''L IR'', ''R IR'',
        ''L SR'', ''R SR'']]),
    (''leftLG_LZ'', new_Set [strs [''L LR'', ''R MR'', ''R IO'', ''R SO'', ''L SR'', ''L IR'', ''R MLF'']]),
    (''rightLG_LZ'', new_Set [strs [''R LR'', ''L MR'', ''L IO'', ''L SO'', ''R SR'', ''R IR'', ''L MLF'']]),
    (''lefthyper_LZ'', new_Set [strs [''L SO'', ''L IR'', ''R SR'', ''R IO'', ''L MLF'']]),
    (''righthyper_LZ'', new_Set [strs [''R SO'', ''R IR'', ''L SR'', ''L IO'', ''R MLF'']]),
    (''nohyper_LZ'', new_Set [strs [''L LR'', ''R LR'', ''L MR'', ''R MR'', ''L MLF'', ''R MLF'']]),
    (''lefttilt_LZ'', new_Set [strs [''L SR'', ''L SO'', ''R IR'', ''R IO'']]),
    (''righttilt_LZ'', new_Set [strs [''R SR'', ''R SO'', ''L IR'', ''L IO'']]),
    (''rightlarger_LZ'', new_Set [strs [''R parasympathetic'', ''L sympathetic'']]),
    (''leftlarger_LZ'', new_Set [strs [''L parasympathetic'', ''R sympathetic'']]),
    (''dark_LZ'', new_Set [strs [''L sympathetic'', ''R sympathetic'']]),
    (''light_LZ'', new_Set [strs [''R parasympathetic'', ''L parasympathetic'']]),
    (''ddx_list'', ddx_list),
    (''RINO'', new_Set [strs [''R MLF'', ''nystagmus'', ''impaired_adduction'']]),
    (''LINO'', new_Set (vals [''L MLF'', ''nystagmus'', ''impaired_adduction''])),
    (''RCNIIIPalsy'', new_Set (vals [''ptosis'', ''R MR'', ''R IO'', ''R SR'', ''R IR'',
        ''R parasympathetic'', ''eye_pain'', ''convergence_impaired'', ''impaired_adduction''])),
    (''LCNIIIPalsy'', new_Set (vals [''ptosis'', ''L MR'', ''L IO'', ''L SR'', ''L IR'',
        ''L parasympathetic'', ''eye_pain'', ''convergence_impaired'', ''impaired_adduction''])),
    (''RCNIVPalsy'', new_Set (vals [''eye_pain'', ''R SO''])),
    (''LCNIVPalsy'', new_Set (vals [''eye_pain'', ''L SO''])),
    (''RCNVIPalsy'', new_Set (vals [''eye_pain'', ''R LR''])),
    (''LCNVIPalsy'', new_Set (vals [''eye_pain'', ''L LR''])),
    (''IncreasedICP'', new_Set (vals [''R LR'', ''L LR'', ''headache'', ''L parasympathetic'',
        ''R parasympathetic''])),
    (''IntracranialAneurysm'', new_Set [strs [''ptosis'', ''R MR'', ''R IO'', ''R SR'', ''R IR'',
        ''L MR'', ''L IO'', ''L SR'', ''L IR'', ''R parasympathetic'', ''convergence_impaired'',
        ''impaired_adduction'', ''headache'']]),
    (''CavernousSinus'', new_Set [strs [''R sympathetic'', ''L sympathetic'', ''R MR'', ''R IO'',
        ''R SR'', ''R IR'', ''L MR'', ''L IO'', ''L SR'', ''L IR'', ''L SO'', ''R SO'', ''L LR'',
        ''R LR'', ''facial_numbness'', ''ptosis'', ''eye_pain'']]),
    (''MidbrainattheLeveloftheSuperiorCerebellarPeduncle'', new_Set (vals [''ptosis'', ''R MR'',
        ''R IO'', ''R SR'', ''R IR'', ''R parasympathetic'', ''ipsilateral_ataxia'', ''nystagmus'',
        ''R MLF'', ''L MLF'', ''L MR'', ''L IO'', ''L SR'', ''L IR'', ''L parasympathetic'',
        ''impaired_adduction''])),
    (''BaseoftheMidbrain'', new_Set (vals [''R MR'', ''R IO'', ''R SR'', ''R IR'', ''L MR'',
        ''L IO'', ''L SR'', ''L IR'', ''contralateral_hemiparesis''])),
    (''Horner'', new_Set [strs [''R sympathetic'', ''L sympathetic'', ''ptosis'']]),
    (''DorsalPons'', new_Set [strs [''L LR'', ''R LR'', ''L MLF'', ''R MLF'',
        ''ipsilateral_hemiface_weakness'', ''impaired_adduction'']]),
    (''TegmentumoftheMidbrain'', new_Set (vals [''R MR'', ''R IO'', ''R SR'', ''R IR'', ''L MR'',
        ''L IO'', ''L SR'', ''L IR'', ''R parasympathetic'', ''ipsilateral_ataxia'',
        ''contralateral_ataxia'', ''contralateral_hemiparesis'', ''nystagmus'']))]"

text \<open>The global scope that \<^verbatim>\<open>eval\<close> and the handler read: variable name to Set.\<close>

type_synonym scope = "string \<Rightarrow> jsset option"

definition script_globals :: scope where
  "script_globals = map_of script_globals_list"

section \<open>The checkbox click handler, on Set values\<close>

text \<open>
  What the handler can throw: \<^verbatim>\<open>eval\<close> of a name that no global variable has, and
  \<^verbatim>\<open>.replace\<close> called on an element that is not a string.
\<close>

datatype error = ReferenceError string | TypeError string

text \<open>
  \<^verbatim>\<open>eval(name)\<close> for a string that is the name of a variable: the value of a
  declared global, a \<^verbatim>\<open>ReferenceError\<close> otherwise. The ids of the checkboxes come
  from the page, which is not part of the script; an id that is not an identifier
  would be run as code by \<^verbatim>\<open>eval\<close>, and is outside the model.
\<close>

definition js_eval :: "scope \<Rightarrow> string \<Rightarrow> error + jsset" where
  "js_eval G name = (case G name of None \<Rightarrow> Inl (ReferenceError name) | Some s \<Rightarrow> Inr s)"

text \<open>\<^verbatim>\<open>s.replace(/\s+/g, "")\<close> on ASCII text.\<close>

definition is_space :: "char \<Rightarrow> bool" where
  "is_space c = (c \<in> set [CHR '' '', CHR 0x09, CHR 0x0A, CHR 0x0B, CHR 0x0C, CHR 0x0D])"

definition replace_spaces :: "string \<Rightarrow> string" where
  "replace_spaces s = filter (\<lambda>c. \<not> is_space c) s"

text \<open>Lines 399 to 407: the loop over the checked localization checkboxes.\<close>

fun localization_loop :: "scope \<Rightarrow> string list \<Rightarrow> jsset \<Rightarrow> error + jsset" where
  "localization_loop G [] finalSet = Inr finalSet"
| "localization_loop G (i # ids) finalSet =
     (case js_eval G (i @ ''_LZ'') of
        Inl e \<Rightarrow> Inl e
      | Inr curSet \<Rightarrow>
          localization_loop G ids
            (if isEmpty finalSet then union_set finalSet (SetArg curSet)
             else intersection finalSet (SetArg curSet)))"

text \<open>Lines 450 to 465: the loop over \<^verbatim>\<open>ddx_list.keys()\<close> for one symptom.\<close>

fun dx_loop :: "scope \<Rightarrow> string \<Rightarrow> jsset \<Rightarrow> elem list \<Rightarrow> jsset \<Rightarrow> error + jsset" where
  "dx_loop G cur_symptom finalSet [] curRunningSet = Inr curRunningSet"
| "dx_loop G cur_symptom finalSet (Num n # rest) curRunningSet = Inl (TypeError ''replace'')"
| "dx_loop G cur_symptom finalSet (Str curDxSpace # rest) curRunningSet =
     (case js_eval G (replace_spaces curDxSpace) of
        Inl e \<Rightarrow> Inl e
      | Inr curDxSet \<Rightarrow>
          (let overlapLocal = has curDxSet (Str cur_symptom);
               overlapDDx = intersection curDxSet (SetArg finalSet)
           in dx_loop G cur_symptom finalSet rest
                (if overlapLocal \<and> \<not> isEmpty overlapDDx
                 then add [Val (Str curDxSpace)] curRunningSet else curRunningSet)))"

text \<open>Lines 440 to 475: the loop over the checked symptom checkboxes.\<close>

fun symptom_loop ::
  "scope \<Rightarrow> jsset \<Rightarrow> string list \<Rightarrow> jsset \<times> jsset \<Rightarrow> error + (jsset \<times> jsset)" where
  "symptom_loop G finalSet [] (noset, finalDx) = Inr (noset, finalDx)"
| "symptom_loop G finalSet (cur_symptom # rest) (noset, finalDx) =
     (let noset' = add [Val (Str cur_symptom)] noset;
          curRunningSet = new_Set [Arr []]
      in case js_eval G ''ddx_list'' of
           Inl e \<Rightarrow> Inl e
         | Inr ddx \<Rightarrow>
             (case dx_loop G cur_symptom finalSet (keys ddx) curRunningSet of
                Inl e \<Rightarrow> Inl e
              | Inr curRunningSet' \<Rightarrow>
                  symptom_loop G finalSet rest
                    (noset',
                     if \<not> equals finalDx (SetArg curRunningSet')
                     then union_set finalDx (SetArg (difference curRunningSet' (SetArg finalDx)))
                     else finalDx)))"

text \<open>The variables of the ranking scan, lines 476 to 486.\<close>

record ranking =
  topSet :: jsset
  secondSet :: jsset
  topddxcount :: nat
  topddx :: string
  seconddx :: string
  seconddxcount :: nat
  secondMultipleSet :: jsset
  topMultipleSet :: jsset

definition ranking_init :: ranking where
  "ranking_init =
     \<lparr>topSet = new_Set [Arr []], secondSet = new_Set [Arr []], topddxcount = 0, topddx = [],
      seconddx = [], seconddxcount = 0, secondMultipleSet = new_Set [Arr []],
      topMultipleSet = new_Set [Arr []]\<rparr>"

text \<open>Lines 503 to 535: the branches of one step of the scan.\<close>

definition rank_update :: "string \<Rightarrow> jsset \<Rightarrow> nat \<Rightarrow> ranking \<Rightarrow> ranking" where
  "rank_update item4 interSet testcount r =
     (if topddxcount r = 0 \<and> seconddxcount r = 0 then
        r\<lparr>topddxcount := testcount, topddx := item4, topSet := interSet,
          seconddxcount := testcount, seconddx := item4, secondSet := interSet\<rparr>
      else if testcount > topddxcount r then
        (let r1 = r\<lparr>seconddxcount := topddxcount r, seconddx := topddx r, secondSet := topSet r,
                     topddxcount := testcount, topddx := item4, topSet := interSet\<rparr>;
             r2 = r1\<lparr>secondMultipleSet := clear (secondMultipleSet r1)\<rparr>;
             r3 = r2\<lparr>secondMultipleSet :=
                       union_set (topMultipleSet r2) (SetArg (secondMultipleSet r2))\<rparr>
         in r3\<lparr>topMultipleSet := clear (topMultipleSet r3)\<rparr>)
      else if testcount = topddxcount r then
        (let r1 = r\<lparr>topMultipleSet := add [Val (Str (topddx r))] (topMultipleSet r)\<rparr>
         in r1\<lparr>topMultipleSet := add [Val (Str item4)] (topMultipleSet r1)\<rparr>)
      else if testcount > seconddxcount r then
        r\<lparr>seconddxcount := testcount, seconddx := item4, secondSet := interSet,
          secondMultipleSet := clear (secondMultipleSet r)\<rparr>
      else if testcount = seconddxcount r then
        (let r1 = r\<lparr>secondMultipleSet := add [Val (Str (seconddx r))] (secondMultipleSet r)\<rparr>
         in r1\<lparr>secondMultipleSet := add [Val (Str item4)] (secondMultipleSet r1)\<rparr>)
      else r)"

text \<open>Lines 497 to 501: the overlap of a diagnosis with the evidence, and its size.\<close>

definition overlap :: "jsset \<Rightarrow> jsset \<Rightarrow> jsset" where
  "overlap item4set finalSet = intersection item4set (SetArg finalSet)"

definition count_each :: "jsset \<Rightarrow> nat" where
  "count_each interSet = each (\<lambda>v key testcount. testcount + 1) interSet 0"

text \<open>Lines 493 to 501: the overlap and the count for the candidate \<open>item4\<close>.\<close>

definition score :: "scope \<Rightarrow> jsset \<Rightarrow> string \<Rightarrow> error + (jsset \<times> nat)" where
  "score G finalSet item4 =
     (case js_eval G (replace_spaces item4) of
        Inl e \<Rightarrow> Inl e
      | Inr item4set \<Rightarrow>
          (let interSet = overlap item4set finalSet;
               testcount = count_each interSet
           in Inr (interSet, testcount)))"

text \<open>Lines 490 to 548: the scan over \<^verbatim>\<open>finalDx.keys()\<close>.\<close>

fun rank_loop :: "scope \<Rightarrow> jsset \<Rightarrow> elem list \<Rightarrow> ranking \<Rightarrow> error + ranking" where
  "rank_loop G finalSet [] r = Inr r"
| "rank_loop G finalSet (Num n # rest) r = Inl (TypeError ''replace'')"
| "rank_loop G finalSet (Str item4 # rest) r =
     (case score G finalSet item4 of
        Inl e \<Rightarrow> Inl e
      | Inr (interSet, testcount) \<Rightarrow>
          rank_loop G finalSet rest (rank_update item4 interSet testcount r))"

text \<open>
  The four elements of the page the handler writes. \<^verbatim>\<open>.html(s)\<close> replaces the
  content; \<^verbatim>\<open>.append(x)\<close> adds an item after it.
\<close>

record area =
  html :: string
  appended :: "string list"

record page =
  a_local :: area
  a_ddx :: area
  area1 :: area
  area2 :: area

definition set_html :: "string \<Rightarrow> area" where
  "set_html s = \<lparr>html = s, appended = []\<rparr>"

definition append_li :: "elem list \<Rightarrow> area \<Rightarrow> area" where
  "append_li items a =
     fold (\<lambda>item a. a\<lparr>appended := appended a @ [''<li>'' @ toKey item @ ''</li>'']\<rparr>) items a"

text \<open>Lines 550 to 576: what the scan's result puts on the page.\<close>

definition render_ranking :: "ranking \<Rightarrow> page \<Rightarrow> page" where
  "render_ranking r pg =
     (let pg1 =
            (if \<not> isEmpty (topMultipleSet r) then
               pg\<lparr>area1 := append_li (keys (topMultipleSet r))
                                (set_html ''Multiple differentials likely! <br>'')\<rparr>
             else
               pg\<lparr>area1 := append_li (keys (topSet r))
                                (set_html (''<strong>'' @ topddx r @ ''</strong>: <br/>''))\<rparr>);
          pg2 =
            (if \<not> isEmpty (secondMultipleSet r) then
               pg1\<lparr>area2 := append_li (keys (secondMultipleSet r))
                                 (set_html ''Also consider the following: <br>'')\<rparr>
             else
               pg1\<lparr>area2 := append_li (keys (secondSet r))
                                 (set_html (''<strong>'' @ seconddx r @ ''</strong>: <br/>''))\<rparr>)
      in if has (topMultipleSet r) (Str (seconddx r)) \<or> topddx r = seconddx r
         then pg2\<lparr>area2 := set_html ''No additional differentials''\<rparr>
         else pg2)"

text \<open>
  What the page says is checked: the ids of the checked localization checkboxes and
  of the checked symptom checkboxes, each in document order, and whether a checkbox
  of neither kind is checked.
\<close>

record input =
  zones :: "string list"
  symptoms :: "string list"
  other_checked :: bool

text \<open>Lines 392 to 408: the localization Set of the checked localization checkboxes.\<close>

definition resolve_localization :: "scope \<Rightarrow> string list \<Rightarrow> error + jsset" where
  "resolve_localization G zs =
     (let finalSet = new_Set [Arr []]
      in if zs \<noteq> [] then localization_loop G zs finalSet else Inr finalSet)"

text \<open>Lines 435 to 475: the Set of the checked symptoms and the candidate diagnoses.\<close>

definition select_candidates :: "scope \<Rightarrow> jsset \<Rightarrow> string list \<Rightarrow> error + (jsset \<times> jsset)" where
  "select_candidates G finalSet syms =
     (let noset = new_Set [Arr []];
          finalDx = new_Set [Arr []]
      in symptom_loop G finalSet syms (noset, finalDx))"

text \<open>Line 488: the evidence Set.\<close>

definition evidence :: "jsset \<Rightarrow> jsset \<Rightarrow> jsset" where
  "evidence finalSet noset = union_set finalSet (SetArg noset)"

text \<open>Lines 476 to 548: the scan over the candidates, on the evidence Set.\<close>

definition rank_differentials :: "scope \<Rightarrow> jsset \<Rightarrow> jsset \<Rightarrow> jsset \<Rightarrow> error + ranking" where
  "rank_differentials G finalSet noset finalDx =
     (let finalSet' = evidence finalSet noset
      in rank_loop G finalSet' (keys finalDx) ranking_init)"

text \<open>
  Lines 391 to 618. The result is the new page and the text of the alert, if one is
  shown.
\<close>

definition handler :: "scope \<Rightarrow> input \<Rightarrow> page \<Rightarrow> error + (page \<times> string option)" where
  "handler G inp pg =
     (if zones inp \<noteq> [] \<or> symptoms inp \<noteq> [] \<or> other_checked inp then
        (case resolve_localization G (zones inp) of
           Inl e \<Rightarrow> Inl e
         | Inr finalSet \<Rightarrow>
             if isEmpty finalSet then
               Inr (pg\<lparr>a_local := set_html ''No localizations found!'',
                        a_ddx := set_html []\<rparr>, None)
             else
               (let pg1 = pg\<lparr>a_local := append_li (keys finalSet) (set_html []),
                               a_ddx := set_html []\<rparr>
                in if symptoms inp \<noteq> [] then
                     (case select_candidates G finalSet (symptoms inp) of
                        Inl e \<Rightarrow> Inl e
                      | Inr (noset, finalDx) \<Rightarrow>
                          (case rank_differentials G finalSet noset finalDx of
                             Inl e \<Rightarrow> Inl e
                           | Inr r \<Rightarrow> Inr (render_ranking r (pg1\<lparr>a_ddx := set_html []\<rparr>), None)))
                   else Inr (pg1\<lparr>area1 := set_html [], area2 := set_html []\<rparr>, None)))
      else
        Inr (pg\<lparr>a_local := set_html ''No localizations found!'', a_ddx := set_html []\<rparr>,
             Some ''Nothing checked!''))"

section \<open>The checkbox click handler, on a store of Set objects\<close>























section \<open>Notions used in the statements\<close>

text \<open>The property names of a Set's object: the keys the Set holds.\<close>

definition keyset :: "jsset \<Rightarrow> string set" where
  "keyset s = set (map fst (data s))"

text \<open>
  The objects the script can build: no property name occurs twice, and the name
  \<^verbatim>\<open>__proto__\<close> is never an own property (see \<open>obj_put\<close>).
\<close>

definition wf_set :: "jsset \<Rightarrow> bool" where
  "wf_set s = (distinct (map fst (data s)) \<and> \<not> obj_hasOwn (data s) ''__proto__'')"

text \<open>A Set of strings: every stored value is the string that is its key.\<close>

definition str_valued :: "jsset \<Rightarrow> bool" where
  "str_valued s = list_all (\<lambda>(k, v). v = Str k) (data s)"


section \<open>Facts about the object and the Set methods\<close>

lemma has_iff: "has s e \<longleftrightarrow> toKey e \<in> keyset s"
  by (simp add: has_def keyset_def obj_hasOwn_def priv_makeKey_def)

lemma set_obj_insert: "set (obj_insert k v d) = insert (k, v) (set d)"
  by (induction d) (auto split: if_splits)

lemma keys_obj_insert: "fst ` set (obj_insert k v d) = insert k (fst ` set d)"
  by (simp add: set_obj_insert)

lemma distinct_obj_insert:
  "k \<notin> fst ` set d \<Longrightarrow> distinct (map fst d) \<Longrightarrow> distinct (map fst (obj_insert k v d))"
  by (induction d) (auto simp: keys_obj_insert)

lemma map_fst_replace:
  "map (fst \<circ> (\<lambda>(k', v'). if k' = k then (k', v) else (k', v'))) d = map fst d"
  by (induction d) auto

lemma keys_obj_put:
  "fst ` set (obj_put k v d) =
     (if k = ''__proto__'' then fst ` set d else insert k (fst ` set d))"
proof -
  have "fst ` set (map (\<lambda>(k', v'). if k' = k then (k', v) else (k', v')) d) = fst ` set d"
    using map_fst_replace [of k v d] by (metis list.set_map map_map)
  then show ?thesis
    unfolding obj_put_def obj_hasOwn_def by (auto simp: keys_obj_insert)
qed

lemma distinct_obj_put:
  "distinct (map fst d) \<Longrightarrow> distinct (map fst (obj_put k v d))"
  unfolding obj_put_def obj_hasOwn_def
  by (auto simp: distinct_obj_insert map_fst_replace)

lemma keyset_priv_add:
  "keyset (priv_add key val s) =
     (if toKey key = ''__proto__'' then keyset s else insert (toKey key) (keyset s))"
  by (simp add: keyset_def priv_add_def priv_makeKey_def keys_obj_put)

lemma wf_priv_add: "wf_set s \<Longrightarrow> wf_set (priv_add key val s)"
  by (auto simp: wf_set_def priv_add_def priv_makeKey_def obj_hasOwn_def keys_obj_put distinct_obj_put)

lemma eachReturn_loop_all:
  "set rest \<subseteq> set (data this) \<Longrightarrow>
   eachReturn_loop (\<lambda>v key s. (True, fn v key s)) this rest s
     = (True, fold (\<lambda>(k, v) s. fn v k s) rest s)"
proof (induction rest arbitrary: s)
  case Nil
  then show ?case by simp
next
  case (Cons kv rest)
  obtain k v where kv: "kv = (k, v)" by (cases kv)
  from Cons.prems have "has this (Str k)"
    by (force simp: kv has_iff keyset_def)
  with Cons show ?case by (simp add: kv)
qed

lemma each_fold: "each fn this s = fold (\<lambda>(k, v) s. fn v k s) (data this) s"
  by (simp add: each_def eachReturn_def eachReturn_loop_all)

lemma eachReturn_loop_test:
  "set rest \<subseteq> set (data this) \<Longrightarrow>
   fst (eachReturn_loop (\<lambda>v key u. (P key, u)) this rest ()) \<longleftrightarrow> (\<forall>k \<in> set (map fst rest). P k)"
proof (induction rest)
  case Nil
  then show ?case by simp
next
  case (Cons kv rest)
  obtain k v where kv: "kv = (k, v)" by (cases kv)
  from Cons.prems have "has this (Str k)"
    by (force simp: kv has_iff keyset_def)
  with Cons show ?case by (cases "P k") (simp_all add: kv)
qed

lemma isSubset_iff: "isSubset a (SetArg b) \<longleftrightarrow> keyset a \<subseteq> keyset b"
  by (auto simp: isSubset_def eachReturn_def eachReturn_loop_test has_iff keyset_def)

lemma isSuperset_iff: "isSuperset a (SetArg b) \<longleftrightarrow> keyset b \<subseteq> keyset a"
  by (auto simp: isSuperset_def eachReturn_def eachReturn_loop_test has_iff keyset_def)

lemma equals_iff: "equals a (SetArg b) \<longleftrightarrow> keyset a = keyset b"
  by (auto simp: equals_def isSubset_iff isSuperset_iff)

lemma isEmpty_iff: "isEmpty s \<longleftrightarrow> keyset s = {}"
proof -
  have "isEmpty_loop s rest \<longleftrightarrow> rest = []" if "set rest \<subseteq> set (data s)" for rest
  proof (cases rest)
    case Nil
    then show ?thesis by simp
  next
    case (Cons kv rest')
    obtain k v where kv: "kv = (k, v)" by (cases kv)
    from that Cons have "has s (Str k)" by (force simp: kv has_iff keyset_def)
    then show ?thesis by (simp add: Cons kv)
  qed
  then show ?thesis by (simp add: isEmpty_def keyset_def)
qed

lemma keys_eq: "keys s = map snd (data s)"
proof -
  have "fold (\<lambda>(k, v) results. results @ [v]) xs acc = acc @ map snd xs" for xs :: jsobj and acc
    by (induction xs arbitrary: acc) auto
  then show ?thesis by (simp add: keys_def each_fold)
qed

lemma keyset_fold_priv_add:
  "keyset (fold (\<lambda>k self. priv_add k None self) ks s) = keyset s \<union> (toKey ` set ks - {''__proto__''})"
  by (induction ks arbitrary: s) (auto simp: keyset_priv_add)

lemma wf_fold_priv_add: "wf_set s \<Longrightarrow> wf_set (fold (\<lambda>k self. priv_add k None self) ks s)"
  by (induction ks arbitrary: s) (auto simp: wf_priv_add)

lemma keyset_fold_copy:
  "keyset (fold (\<lambda>(k, v) self. if P k then priv_add (Str k) (Some v) self else self) xs s)
     = keyset s \<union> {k \<in> fst ` set xs. P k \<and> k \<noteq> ''__proto__''}"
  by (induction xs arbitrary: s) (auto simp: keyset_priv_add split: if_splits)

lemma wf_fold_copy:
  "wf_set s \<Longrightarrow>
   wf_set (fold (\<lambda>(k, v) self. if P k then priv_add (Str k) (Some v) self else self) xs s)"
  by (induction xs arbitrary: s) (auto simp: wf_priv_add)

lemma keyset_add_arg:
  "keyset (add_arg a s) =
     keyset s \<union> (case a of Val k \<Rightarrow> {toKey k} - {''__proto__''}
                 | Arr ks \<Rightarrow> toKey ` set ks - {''__proto__''}
                 | SetArg other \<Rightarrow> keyset other - {''__proto__''})"
proof (cases a)
  case (Val k)
  then show ?thesis by (auto simp: keyset_priv_add)
next
  case (Arr ks)
  then show ?thesis by (simp add: keyset_fold_priv_add)
next
  case (SetArg other)
  have "keyset (fold (\<lambda>(k, v) self. if True then priv_add (Str k) (Some v) self else self)
                  (data other) s) = keyset s \<union> {k \<in> fst ` set (data other). True \<and> k \<noteq> ''__proto__''}"
    by (rule keyset_fold_copy)
  then show ?thesis by (auto simp: SetArg each_fold keyset_def)
qed

lemma wf_add_arg: "wf_set s \<Longrightarrow> wf_set (add_arg a s)"
proof (cases a)
  case (SetArg other)
  assume "wf_set s"
  then have "wf_set (fold (\<lambda>(k, v) self. if True then priv_add (Str k) (Some v) self else self)
                  (data other) s)"
    by (rule wf_fold_copy)
  then show ?thesis by (simp add: SetArg each_fold)
qed (auto simp: wf_priv_add wf_fold_priv_add)

lemma wf_add: "wf_set s \<Longrightarrow> wf_set (add args s)"
  unfolding add_def by (induction args arbitrary: s) (auto simp: wf_add_arg)

lemma wf_empty: "wf_set (JsSet [])"
  by (simp add: wf_set_def obj_hasOwn_def)

lemma keyset_empty: "keyset (JsSet []) = {}"
  by (simp add: keyset_def)

lemma wf_new_Set: "wf_set (new_Set args)"
  by (simp add: new_Set_def wf_add wf_empty)

lemma new_Set_empty: "new_Set [] = JsSet []" "new_Set [Arr []] = JsSet []"
  by (simp_all add: new_Set_def add_def)

lemma makeNew_empty: "makeNew [] = JsSet []"
  by (simp add: makeNew_def new_Set_empty)

lemma wf_no_proto: "wf_set s \<Longrightarrow> ''__proto__'' \<notin> keyset s"
  by (simp add: wf_set_def keyset_def obj_hasOwn_def)

lemma add_single: "add [a] s = add_arg a s"
  by (simp add: add_def)

lemma union_set_eq:
  "union_set a b = add_arg (SetArg (makeSet b)) (add_arg (SetArg a) (JsSet []))"
  by (simp add: union_set_def makeNew_def new_Set_empty add_single del: add_arg.simps)

lemma keyset_union:
  "keyset (union_set a (SetArg b)) = (keyset a \<union> keyset b) - {''__proto__''}"
  by (auto simp: union_set_eq keyset_add_arg keyset_empty simp del: add_arg.simps)

lemma wf_union: "wf_set (union_set a b)"
  by (simp add: union_set_eq wf_add_arg wf_empty del: add_arg.simps)

lemma keyset_intersection:
  "keyset (intersection a (SetArg b)) = (keyset a \<inter> keyset b) - {''__proto__''}"
proof -
  have "keyset (fold (\<lambda>(k, v) self. if k \<in> keyset b then priv_add (Str k) (Some v) self else self)
                  (data a) (JsSet []))
        = keyset (JsSet []) \<union> {k \<in> fst ` set (data a). k \<in> keyset b \<and> k \<noteq> ''__proto__''}"
    by (rule keyset_fold_copy)
  then show ?thesis
    by (auto simp: intersection_def makeNew_empty each_fold has_iff keyset_empty keyset_def)
qed

lemma wf_intersection: "wf_set (intersection a b)"
proof -
  have "wf_set (fold (\<lambda>(k, v) self. if has (makeSet b) (Str k) then priv_add (Str k) (Some v) self else self)
                  (data a) (JsSet []))"
    by (rule wf_fold_copy) (rule wf_empty)
  then show ?thesis by (simp add: intersection_def makeNew_empty each_fold)
qed

lemma keyset_difference:
  "keyset (difference a (SetArg b)) = (keyset a - keyset b) - {''__proto__''}"
proof -
  have "keyset (fold (\<lambda>(k, v) self. if k \<notin> keyset b then priv_add (Str k) (Some v) self else self)
                  (data a) (JsSet []))
        = keyset (JsSet []) \<union> {k \<in> fst ` set (data a). k \<notin> keyset b \<and> k \<noteq> ''__proto__''}"
    by (rule keyset_fold_copy)
  then show ?thesis
    by (auto simp: difference_def makeNew_empty each_fold has_iff keyset_empty keyset_def)
qed

lemma wf_difference: "wf_set (difference a b)"
proof -
  have "wf_set (fold (\<lambda>(k, v) self. if \<not> has (makeSet b) (Str k) then priv_add (Str k) (Some v) self else self)
                  (data a) (JsSet []))"
    by (rule wf_fold_copy) (rule wf_empty)
  then show ?thesis by (simp add: difference_def makeNew_empty each_fold)
qed

section \<open>Set algebra\<close>

text \<open>
  Claim C7. For all Sets \<open>A\<close> and \<open>B\<close>: \<open>A.union(B).equals(B.union(A))\<close>,
  \<open>A.intersection(B).equals(B.intersection(A))\<close>, \<open>A.difference(A).isEmpty()\<close>,
  \<open>A.union(A).equals(A)\<close>, \<open>A.isSubset(A)\<close> and
  \<open>A.equals(A.union(A.intersection(B)).union(A.difference(B)))\<close>.
\<close>

theorem set_algebra:
  assumes "wf_set A" and "wf_set B"
  shows "equals (union_set A (SetArg B)) (SetArg (union_set B (SetArg A)))
       \<and> equals (intersection A (SetArg B)) (SetArg (intersection B (SetArg A)))
       \<and> isEmpty (difference A (SetArg A))
       \<and> equals (union_set A (SetArg A)) (SetArg A)
       \<and> isSubset A (SetArg A)
       \<and> equals A (SetArg (union_set (union_set A (SetArg (intersection A (SetArg B))))
                                   (SetArg (difference A (SetArg B)))))"
  using wf_no_proto [OF assms(1)] wf_no_proto [OF assms(2)]
  by (auto simp: equals_iff isEmpty_iff isSubset_iff keyset_union keyset_intersection
        keyset_difference)

theorem set_algebra_witness:
  "wf_set (new_Set [Val (Str ''R MR''), Val (Num 1)])
   \<and> wf_set (new_Set [Arr [Str ''1'', Str ''L MR'']])
   \<and> equals (union_set (new_Set [Val (Str ''R MR''), Val (Num 1)])
                (SetArg (new_Set [Arr [Str ''1'', Str ''L MR'']])))
        (SetArg (union_set (new_Set [Arr [Str ''1'', Str ''L MR'']])
                   (SetArg (new_Set [Val (Str ''R MR''), Val (Num 1)]))))
   \<and> isEmpty (difference (new_Set [Val (Str ''R MR''), Val (Num 1)])
                (SetArg (new_Set [Val (Str ''R MR''), Val (Num 1)])))
   \<and> isSubset (new_Set [Val (Str ''R MR''), Val (Num 1)])
        (SetArg (new_Set [Val (Str ''R MR''), Val (Num 1)]))"
proof -
  have a: "wf_set (new_Set [Val (Str ''R MR''), Val (Num 1)])"
    by code_simp
  have b: "wf_set (new_Set [Arr [Str ''1'', Str ''L MR'']])"
    by code_simp
  show ?thesis
    using a b set_algebra [OF a b] by simp
qed

section \<open>Identity of elements\<close>

lemma map_of_obj_insert:
  "k \<notin> fst ` set d \<Longrightarrow> map_of (obj_insert k v d) x = (if x = k then Some v else map_of d x)"
  by (induction d) auto

lemma map_of_replace:
  "map_of (map (\<lambda>(k', v'). if k' = k then (k', v) else (k', v')) d) x
     = (if x = k \<and> k \<in> fst ` set d then Some v else map_of d x)"
proof (induction d)
  case Nil
  then show ?case by simp
next
  case (Cons a d)
  obtain k' v' where a: "a = (k', v')" by (cases a)
  show ?case
  proof (cases "k' = k")
    case True
    then show ?thesis using Cons by (cases "x = k") (simp_all add: a)
  next
    case False
    then show ?thesis using Cons by (cases "x = k") (simp_all add: a)
  qed
qed

lemma map_of_obj_put:
  "k \<noteq> ''__proto__'' \<Longrightarrow> map_of (obj_put k v d) x = (if x = k then Some v else map_of d x)"
  by (simp add: obj_put_def obj_hasOwn_def map_of_obj_insert map_of_replace)

lemma length_obj_put_present:
  "obj_hasOwn d k \<Longrightarrow> length (obj_put k v d) = length d"
  by (simp add: obj_put_def)

lemma keys_length: "length (keys s) = length (data s)"
  by (simp add: keys_eq)

text \<open>Identity by string conversion, for every key other than \<^verbatim>\<open>__proto__\<close>.\<close>

lemma add_same_key:
  assumes "toKey x = toKey y" and "toKey x \<noteq> ''__proto__''" and "wf_set s"
  shows "has (add [Val x] s) y"
    and "length (keys (add [Val y] (add [Val x] s))) = length (keys (add [Val x] s))"
    and "map_of (data (add [Val y] (add [Val x] s))) (toKey x) = Some y"
    and "wf_set (add [Val y] (add [Val x] s))"
proof -
  show "has (add [Val x] s) y"
    using assms by (simp add: add_single has_iff keyset_priv_add)
  then have "obj_hasOwn (data (add [Val x] s)) (toKey y)"
    by (simp add: has_def priv_makeKey_def)
  then show "length (keys (add [Val y] (add [Val x] s))) = length (keys (add [Val x] s))"
    by (simp add: keys_length add_single priv_add_def priv_makeKey_def length_obj_put_present)
  show "map_of (data (add [Val y] (add [Val x] s))) (toKey x) = Some y"
    using assms by (simp add: add_single priv_add_def priv_makeKey_def map_of_obj_put)
  show "wf_set (add [Val y] (add [Val x] s))"
    using assms by (simp add: wf_add)
qed

text \<open>
  Claim C10. In the default Set the identity of an element is its string conversion:
  for values \<open>x\<close> and \<open>y\<close> with the same string conversion, \<open>has(y)\<close> is true
  after \<open>add(x)\<close>, and \<open>add(y)\<close> after it keeps one key and overwrites the value.
  This holds for every string conversion but one (\<open>add_same_key\<close>), and for the
  number 1 and the string \<open>"1"\<close>. The string \<open>"__proto__"\<close> is a value the Set is
  documented to support, and \<open>add\<close> does not store it: \<open>has\<close> stays false and the Set
  stays empty.
\<close>

theorem add_proto_not_member:
  "toKey (Str ''__proto__'') = toKey (Str ''__proto__'')
   \<and> \<not> has (add [Val (Str ''__proto__'')] (new_Set [])) (Str ''__proto__'')
   \<and> keys (add [Val (Str ''__proto__'')] (new_Set [])) = []
   \<and> has (add [Val (Num 1)] (new_Set [])) (Str ''1'')
   \<and> keys (add [Val (Str ''1'')] (add [Val (Num 1)] (new_Set []))) = [Str ''1'']"
  by code_simp

section \<open>The localization Set\<close>

lemma script_globals_wf: "script_globals n = Some S \<Longrightarrow> wf_set S"
proof -
  assume "script_globals n = Some S"
  then have "(n, S) \<in> set script_globals_list"
    unfolding script_globals_def by (rule map_of_SomeD)
  then show ?thesis
    unfolding script_globals_list_def by (auto simp: wf_new_Set ddx_list_def)
qed

lemma resolve_localization_none: "resolve_localization G [] = Inr (JsSet [])"
  by (simp add: resolve_localization_def new_Set_empty)

lemma resolve_localization_single:
  "G (z @ ''_LZ'') = Some S \<Longrightarrow>
   resolve_localization G [z] = Inr (union_set (JsSet []) (SetArg S))"
  by (simp add: resolve_localization_def new_Set_empty js_eval_def isEmpty_iff keyset_empty)

text \<open>
  Claim C6. Resolving no localization checkbox gives the empty Set, and resolving a
  single one gives a Set equal (\<open>equals\<close>) to the zone Set of that identifier.
\<close>

theorem localization_bootstrap:
  "(\<exists>R. resolve_localization script_globals [] = Inr R \<and> isEmpty R \<and> keys R = [])
   \<and> (\<forall>z S. script_globals (z @ ''_LZ'') = Some S \<longrightarrow>
         (\<exists>R. resolve_localization script_globals [z] = Inr R \<and> equals R (SetArg S)))"
proof (intro conjI allI impI)
  show "\<exists>R. resolve_localization script_globals [] = Inr R \<and> isEmpty R \<and> keys R = []"
    by (simp add: resolve_localization_none isEmpty_iff keyset_empty keys_eq)
next
  fix z S
  assume g: "script_globals (z @ ''_LZ'') = Some S"
  have "''__proto__'' \<notin> keyset S"
    using script_globals_wf [OF g] by (rule wf_no_proto)
  then have "equals (union_set (JsSet []) (SetArg S)) (SetArg S)"
    by (simp add: equals_iff keyset_union keyset_empty)
  then show "\<exists>R. resolve_localization script_globals [z] = Inr R \<and> equals R (SetArg S)"
    by (simp add: resolve_localization_single [of script_globals z S, OF g])
qed

theorem localization_bootstrap_witness:
  "script_globals (''dark'' @ ''_LZ'') = Some (new_Set [strs [''L sympathetic'', ''R sympathetic'']])
   \<and> (\<exists>R. resolve_localization script_globals [''dark''] = Inr R
          \<and> equals R (SetArg (new_Set [strs [''L sympathetic'', ''R sympathetic'']])))"
proof -
  have g: "script_globals (''dark'' @ ''_LZ'')
             = Some (new_Set [strs [''L sympathetic'', ''R sympathetic'']])"
    by (simp add: script_globals_def script_globals_list_def)
  show ?thesis
    using g localization_bootstrap by blast
qed

text \<open>
  Claim C1. For a non-empty sequence of selected zones the result is the intersection
  of their zone Sets. The loop tests \<open>finalSet.isEmpty()\<close> to find the first zone, so
  an intersection that has become empty is replaced by the next zone Set: for the
  three pairwise disjoint zones \<open>lefttilt\<close>, \<open>righttilt\<close> and \<open>dark\<close>, in each of
  the six orders, the result is the last zone Set, not the empty intersection.
\<close>

theorem localization_restarts_after_empty:
  "resolve_localization script_globals [''lefttilt'', ''righttilt'', ''dark'']
     = Inr (JsSet [(''L sympathetic'', Str ''L sympathetic''), (''R sympathetic'', Str ''R sympathetic'')])
   \<and> resolve_localization script_globals [''lefttilt'', ''dark'', ''righttilt'']
     = Inr (JsSet [(''R SR'', Str ''R SR''), (''R SO'', Str ''R SO''), (''L IR'', Str ''L IR''),
                   (''L IO'', Str ''L IO'')])
   \<and> resolve_localization script_globals [''righttilt'', ''lefttilt'', ''dark'']
     = Inr (JsSet [(''L sympathetic'', Str ''L sympathetic''), (''R sympathetic'', Str ''R sympathetic'')])
   \<and> resolve_localization script_globals [''righttilt'', ''dark'', ''lefttilt'']
     = Inr (JsSet [(''L SR'', Str ''L SR''), (''L SO'', Str ''L SO''), (''R IR'', Str ''R IR''),
                   (''R IO'', Str ''R IO'')])
   \<and> resolve_localization script_globals [''dark'', ''lefttilt'', ''righttilt'']
     = Inr (JsSet [(''R SR'', Str ''R SR''), (''R SO'', Str ''R SO''), (''L IR'', Str ''L IR''),
                   (''L IO'', Str ''L IO'')])
   \<and> resolve_localization script_globals [''dark'', ''righttilt'', ''lefttilt'']
     = Inr (JsSet [(''L SR'', Str ''L SR''), (''L SO'', Str ''L SO''), (''R IR'', Str ''R IR''),
                   (''R IO'', Str ''R IO'')])
   \<and> isEmpty (intersection (new_Set [strs [''L SR'', ''L SO'', ''R IR'', ''R IO'']])
                (SetArg (new_Set [strs [''R SR'', ''R SO'', ''L IR'', ''L IO'']])))"
  by code_simp

section \<open>Sets of strings\<close>

lemma set_obj_put_subset: "set (obj_put k v d) \<subseteq> insert (k, v) (set d)"
  by (auto simp: obj_put_def set_obj_insert split: if_splits)

lemma str_valued_iff: "str_valued s \<longleftrightarrow> (\<forall>(k, v) \<in> set (data s). v = Str k)"
  by (simp add: str_valued_def list_all_iff)

lemma str_valued_empty: "str_valued (JsSet [])"
  by (simp add: str_valued_def)

lemma str_valued_priv_add:
  "str_valued s \<Longrightarrow> (case val of None \<Rightarrow> key | Some v \<Rightarrow> v) = Str (toKey key) \<Longrightarrow>
   str_valued (priv_add key val s)"
  using set_obj_put_subset [of "toKey key" "Str (toKey key)" "data s"]
  by (auto simp: str_valued_iff priv_add_def priv_makeKey_def)

lemma str_valued_fold_copy:
  "\<forall>(k, v) \<in> set xs. v = Str k \<Longrightarrow> str_valued s \<Longrightarrow>
   str_valued (fold (\<lambda>(k, v) self. if P k then priv_add (Str k) (Some v) self else self) xs s)"
  by (induction xs arbitrary: s) (auto simp: str_valued_priv_add)

lemma str_valued_add_val: "str_valued s \<Longrightarrow> str_valued (add [Val (Str k)] s)"
  by (simp add: add_single str_valued_priv_add)

lemma str_valued_add_set:
  assumes "str_valued other" and "str_valued s"
  shows "str_valued (add_arg (SetArg other) s)"
proof -
  have "str_valued (fold (\<lambda>(k, v) self. if True then priv_add (Str k) (Some v) self else self)
          (data other) s)"
    using assms by (intro str_valued_fold_copy) (simp_all add: str_valued_iff)
  then show ?thesis by (simp add: each_fold)
qed

lemma str_valued_union:
  "str_valued a \<Longrightarrow> str_valued b \<Longrightarrow> str_valued (union_set a (SetArg b))"
  by (simp add: union_set_eq str_valued_add_set str_valued_empty del: add_arg.simps)

lemma str_valued_intersection:
  assumes "str_valued a"
  shows "str_valued (intersection a b)"
proof -
  have "str_valued (fold (\<lambda>(k, v) self. if has (makeSet b) (Str k) then priv_add (Str k) (Some v) self else self)
          (data a) (JsSet []))"
    using assms by (intro str_valued_fold_copy) (simp_all add: str_valued_iff str_valued_empty)
  then show ?thesis by (simp add: intersection_def makeNew_empty each_fold)
qed

lemma str_valued_difference:
  assumes "str_valued a"
  shows "str_valued (difference a b)"
proof -
  have "str_valued (fold (\<lambda>(k, v) self. if \<not> has (makeSet b) (Str k) then priv_add (Str k) (Some v) self else self)
          (data a) (JsSet []))"
    using assms by (intro str_valued_fold_copy) (simp_all add: str_valued_iff str_valued_empty)
  then show ?thesis by (simp add: difference_def makeNew_empty each_fold)
qed

lemma keys_str_valued: "str_valued s \<Longrightarrow> keys s = map Str (map fst (data s))"
  by (auto simp: keys_eq str_valued_iff)

lemma set_keys_str_valued: "str_valued s \<Longrightarrow> set (keys s) = Str ` keyset s"
  by (simp add: keys_str_valued keyset_def image_image)

lemma keyset_add_val:
  "keyset (add [Val k] s) = (if toKey k = ''__proto__'' then keyset s else insert (toKey k) (keyset s))"
  by (simp add: add_single keyset_priv_add)

section \<open>Candidate selection\<close>

text \<open>The loop over the diagnoses, for one symptom.\<close>

lemma dx_loop_result:
  assumes "\<forall>e \<in> set ks. \<exists>name S. e = Str name \<and> G (replace_spaces name) = Some S"
  shows "\<exists>cur'. dx_loop G smp L ks cur = Inr cur'
           \<and> keyset cur' = keyset cur \<union>
               {name. Str name \<in> set ks \<and> name \<noteq> ''__proto__'' \<and>
                  (\<exists>S. G (replace_spaces name) = Some S \<and> has S (Str smp)
                        \<and> \<not> isEmpty (intersection S (SetArg L)))}
           \<and> (str_valued cur \<longrightarrow> str_valued cur')"
  using assms
proof (induction ks arbitrary: cur)
  case Nil
  then show ?case by simp
next
  case (Cons e ks)
  from Cons.prems obtain name S where e: "e = Str name" and S: "G (replace_spaces name) = Some S"
    by auto
  let ?cur1 = "if has S (Str smp) \<and> \<not> isEmpty (intersection S (SetArg L))
               then add [Val (Str name)] cur else cur"
  from Cons.prems have "\<forall>e \<in> set ks. \<exists>name S. e = Str name \<and> G (replace_spaces name) = Some S"
    by simp
  from Cons.IH [OF this, of ?cur1] obtain cur' where
    r: "dx_loop G smp L ks ?cur1 = Inr cur'"
    and k: "keyset cur' = keyset ?cur1 \<union>
               {name. Str name \<in> set ks \<and> name \<noteq> ''__proto__'' \<and>
                  (\<exists>S. G (replace_spaces name) = Some S \<and> has S (Str smp)
                        \<and> \<not> isEmpty (intersection S (SetArg L)))}"
    and v: "str_valued ?cur1 \<longrightarrow> str_valued cur'"
    by blast
  have "dx_loop G smp L (e # ks) cur = Inr cur'"
    using r by (simp add: e S js_eval_def)
  moreover have "keyset cur' = keyset cur \<union>
               {name. Str name \<in> set (e # ks) \<and> name \<noteq> ''__proto__'' \<and>
                  (\<exists>S. G (replace_spaces name) = Some S \<and> has S (Str smp)
                        \<and> \<not> isEmpty (intersection S (SetArg L)))}"
    unfolding k using S by (auto simp: e keyset_add_val split: if_splits)
  moreover have "str_valued cur \<longrightarrow> str_valued cur'"
    using v by (auto simp: str_valued_add_val)
  ultimately show ?case by blast
qed

lemma candidates_step:
  assumes "wf_set finalDx" and "''__proto__'' \<notin> keyset cur"
  shows "keyset (if \<not> equals finalDx (SetArg cur)
                 then union_set finalDx (SetArg (difference cur (SetArg finalDx)))
                 else finalDx) = keyset finalDx \<union> keyset cur"
    and "wf_set (if \<not> equals finalDx (SetArg cur)
                 then union_set finalDx (SetArg (difference cur (SetArg finalDx)))
                 else finalDx)"
  using assms wf_no_proto [OF assms(1)]
  by (auto simp: equals_iff keyset_union keyset_difference wf_union)

lemma candidates_step_str:
  "str_valued finalDx \<Longrightarrow> str_valued cur \<Longrightarrow>
   str_valued (if \<not> equals finalDx (SetArg cur)
                 then union_set finalDx (SetArg (difference cur (SetArg finalDx)))
                 else finalDx)"
  by (simp add: str_valued_union str_valued_difference)

lemma symptom_loop_result:
  assumes ddx: "G ''ddx_list'' = Some ddx"
    and res: "\<forall>e \<in> set (keys ddx). \<exists>name S. e = Str name \<and> G (replace_spaces name) = Some S"
    and wf: "wf_set finalDx"
  shows "\<exists>noset' finalDx'.
           symptom_loop G L syms (noset, finalDx) = Inr (noset', finalDx')
           \<and> keyset noset' = keyset noset \<union> (set syms - {''__proto__''})
           \<and> keyset finalDx' = keyset finalDx \<union>
               {name. Str name \<in> set (keys ddx) \<and> name \<noteq> ''__proto__'' \<and>
                  (\<exists>s \<in> set syms. \<exists>S. G (replace_spaces name) = Some S \<and> has S (Str s)
                        \<and> \<not> isEmpty (intersection S (SetArg L)))}
           \<and> wf_set finalDx'
           \<and> (str_valued finalDx \<longrightarrow> str_valued finalDx')
           \<and> (str_valued noset \<longrightarrow> str_valued noset')"
  using wf
proof (induction syms arbitrary: noset finalDx)
  case Nil
  then show ?case by simp
next
  case (Cons s syms)
  let ?Q = "\<lambda>s. {name. Str name \<in> set (keys ddx) \<and> name \<noteq> ''__proto__'' \<and>
                  (\<exists>S. G (replace_spaces name) = Some S \<and> has S (Str s)
                        \<and> \<not> isEmpty (intersection S (SetArg L)))}"
  from dx_loop_result [OF res, of s L "JsSet []"] obtain cur where
    c: "dx_loop G s L (keys ddx) (JsSet []) = Inr cur"
    and ck: "keyset cur = ?Q s"
    and cv: "str_valued cur"
    by (auto simp: keyset_empty str_valued_empty)
  let ?noset1 = "add [Val (Str s)] noset"
  let ?dx1 = "if \<not> equals finalDx (SetArg cur)
              then union_set finalDx (SetArg (difference cur (SetArg finalDx)))
              else finalDx"
  have np: "''__proto__'' \<notin> keyset cur" by (simp add: ck)
  have k1: "keyset ?dx1 = keyset finalDx \<union> ?Q s"
    using candidates_step(1) [OF Cons.prems np] ck by simp
  have w1: "wf_set ?dx1"
    by (rule candidates_step(2) [OF Cons.prems np])
  from Cons.IH [OF w1, of ?noset1] obtain noset' finalDx' where
    r: "symptom_loop G L syms (?noset1, ?dx1) = Inr (noset', finalDx')"
    and nk: "keyset noset' = keyset ?noset1 \<union> (set syms - {''__proto__''})"
    and dk: "keyset finalDx' = keyset ?dx1 \<union>
               {name. Str name \<in> set (keys ddx) \<and> name \<noteq> ''__proto__'' \<and>
                  (\<exists>s \<in> set syms. \<exists>S. G (replace_spaces name) = Some S \<and> has S (Str s)
                        \<and> \<not> isEmpty (intersection S (SetArg L)))}"
    and dw: "wf_set finalDx'"
    and dv: "str_valued ?dx1 \<longrightarrow> str_valued finalDx'"
    and nv: "str_valued ?noset1 \<longrightarrow> str_valued noset'"
    by (elim exE conjE) (rule that, assumption+)
  have "symptom_loop G L (s # syms) (noset, finalDx) = Inr (noset', finalDx')"
    using r c by (simp add: js_eval_def ddx new_Set_empty)
  moreover have "keyset noset' = keyset noset \<union> (set (s # syms) - {''__proto__''})"
    unfolding nk by (auto simp: keyset_add_val)
  moreover have "keyset finalDx' = keyset finalDx \<union>
               {name. Str name \<in> set (keys ddx) \<and> name \<noteq> ''__proto__'' \<and>
                  (\<exists>s \<in> set (s # syms). \<exists>S. G (replace_spaces name) = Some S \<and> has S (Str s)
                        \<and> \<not> isEmpty (intersection S (SetArg L)))}"
    unfolding dk k1 by auto
  moreover have "str_valued finalDx \<longrightarrow> str_valued finalDx'"
    using dv cv candidates_step_str [of finalDx cur] by blast
  moreover have "str_valued noset \<longrightarrow> str_valued noset'"
    using nv by (simp add: str_valued_add_val)
  ultimately show ?case using dw by blast
qed

text \<open>The knowledge base of the script.\<close>

lemma ddx_list_keys:
  "keys ddx_list = map Str [''R INO'', ''L INO'', ''R CN III Palsy'', ''L CN III Palsy'',
        ''R CN IV Palsy'', ''L CN IV Palsy'', ''R CN VI Palsy'', ''L CN VI Palsy'',
        ''Intracranial Aneurysm'', ''Cavernous Sinus'', ''Horner'',
        ''Midbrain at the Level of the Superior Cerebellar Peduncle'', ''Dorsal Pons'',
        ''Base of the Midbrain'', ''Increased ICP'', ''Tegmentum of the Midbrain'']"
  by code_simp

lemma script_ddx_list: "script_globals ''ddx_list'' = Some ddx_list"
  by (simp add: script_globals_def script_globals_list_def)

lemma ddx_list_wf: "wf_set ddx_list"
  by (simp add: ddx_list_def wf_new_Set) 

lemma ddx_list_str: "str_valued ddx_list"
  by code_simp

lemma script_names:
  "map fst script_globals_list =
     [''all'', ''horizontal_LZ'', ''diagonal_LZ'', ''vertical_LZ'', ''leftLG_LZ'', ''rightLG_LZ'',
      ''lefthyper_LZ'', ''righthyper_LZ'', ''nohyper_LZ'', ''lefttilt_LZ'', ''righttilt_LZ'',
      ''rightlarger_LZ'', ''leftlarger_LZ'', ''dark_LZ'', ''light_LZ'', ''ddx_list'', ''RINO'',
      ''LINO'', ''RCNIIIPalsy'', ''LCNIIIPalsy'', ''RCNIVPalsy'', ''LCNIVPalsy'', ''RCNVIPalsy'',
      ''LCNVIPalsy'', ''IncreasedICP'', ''IntracranialAneurysm'', ''CavernousSinus'',
      ''MidbrainattheLeveloftheSuperiorCerebellarPeduncle'', ''BaseoftheMidbrain'', ''Horner'',
      ''DorsalPons'', ''TegmentumoftheMidbrain'']"
  by (simp add: script_globals_list_def)

lemma script_globals_defined:
  "script_globals n \<noteq> None \<longleftrightarrow> n \<in> set (map fst script_globals_list)"
  by (simp add: script_globals_def map_of_eq_None_iff)

lemma ddx_names_declared:
  "list_all (\<lambda>name. replace_spaces name \<in> set
     [''all'', ''horizontal_LZ'', ''diagonal_LZ'', ''vertical_LZ'', ''leftLG_LZ'', ''rightLG_LZ'',
      ''lefthyper_LZ'', ''righthyper_LZ'', ''nohyper_LZ'', ''lefttilt_LZ'', ''righttilt_LZ'',
      ''rightlarger_LZ'', ''leftlarger_LZ'', ''dark_LZ'', ''light_LZ'', ''ddx_list'', ''RINO'',
      ''LINO'', ''RCNIIIPalsy'', ''LCNIIIPalsy'', ''RCNIVPalsy'', ''LCNIVPalsy'', ''RCNVIPalsy'',
      ''LCNVIPalsy'', ''IncreasedICP'', ''IntracranialAneurysm'', ''CavernousSinus'',
      ''MidbrainattheLeveloftheSuperiorCerebellarPeduncle'', ''BaseoftheMidbrain'', ''Horner'',
      ''DorsalPons'', ''TegmentumoftheMidbrain''])
     [''R INO'', ''L INO'', ''R CN III Palsy'', ''L CN III Palsy'',
        ''R CN IV Palsy'', ''L CN IV Palsy'', ''R CN VI Palsy'', ''L CN VI Palsy'',
        ''Intracranial Aneurysm'', ''Cavernous Sinus'', ''Horner'',
        ''Midbrain at the Level of the Superior Cerebellar Peduncle'', ''Dorsal Pons'',
        ''Base of the Midbrain'', ''Increased ICP'', ''Tegmentum of the Midbrain'']"
  by code_simp

lemma ddx_resolve:
  "\<forall>e \<in> set (keys ddx_list). \<exists>name S. e = Str name \<and> script_globals (replace_spaces name) = Some S"
proof -
  have "\<forall>name \<in> set [''R INO'', ''L INO'', ''R CN III Palsy'', ''L CN III Palsy'',
        ''R CN IV Palsy'', ''L CN IV Palsy'', ''R CN VI Palsy'', ''L CN VI Palsy'',
        ''Intracranial Aneurysm'', ''Cavernous Sinus'', ''Horner'',
        ''Midbrain at the Level of the Superior Cerebellar Peduncle'', ''Dorsal Pons'',
        ''Base of the Midbrain'', ''Increased ICP'', ''Tegmentum of the Midbrain''].
          script_globals (replace_spaces name) \<noteq> None"
    using ddx_names_declared unfolding list_all_iff script_globals_defined script_names .
  then show ?thesis
    unfolding ddx_list_keys by force
qed

lemma has_ddx_list: "has ddx_list (Str D) \<longleftrightarrow> Str D \<in> set (keys ddx_list)"
  using ddx_list_str by (auto simp: has_iff set_keys_str_valued)

lemma select_candidates_result:
  "\<exists>noset finalDx.
     select_candidates script_globals L syms = Inr (noset, finalDx)
     \<and> keyset noset = set syms - {''__proto__''}
     \<and> keyset finalDx =
          {D. has ddx_list (Str D) \<and>
              (\<exists>s \<in> set syms. \<exists>S. script_globals (replace_spaces D) = Some S \<and> has S (Str s)
                        \<and> \<not> isEmpty (intersection S (SetArg L)))}
     \<and> wf_set finalDx \<and> str_valued finalDx \<and> str_valued noset"
proof -
  from symptom_loop_result [OF script_ddx_list ddx_resolve wf_empty, of L syms "JsSet []"]
  obtain noset finalDx where
    r: "symptom_loop script_globals L syms (JsSet [], JsSet []) = Inr (noset, finalDx)"
    and nk: "keyset noset = set syms - {''__proto__''}"
    and dk: "keyset finalDx =
               {name. Str name \<in> set (keys ddx_list) \<and> name \<noteq> ''__proto__'' \<and>
                  (\<exists>s \<in> set syms. \<exists>S. script_globals (replace_spaces name) = Some S \<and> has S (Str s)
                        \<and> \<not> isEmpty (intersection S (SetArg L)))}"
    and w: "wf_set finalDx" and v: "str_valued finalDx" and nv: "str_valued noset"
    by (auto simp: keyset_empty str_valued_empty)
  have np: "Str ''__proto__'' \<notin> set (keys ddx_list)"
    using wf_no_proto [OF ddx_list_wf] by (simp add: set_keys_str_valued ddx_list_str image_iff)
  have "keyset finalDx =
          {D. has ddx_list (Str D) \<and>
              (\<exists>s \<in> set syms. \<exists>S. script_globals (replace_spaces D) = Some S \<and> has S (Str s)
                        \<and> \<not> isEmpty (intersection S (SetArg L)))}"
    unfolding dk has_ddx_list using np by auto
  with r nk w v nv show ?thesis
    by (simp add: select_candidates_def new_Set_empty)
qed

section \<open>Scoring and the ranking scan\<close>

lemma count_each_length: "count_each s = length (data s)"
proof -
  have "fold (\<lambda>(k, v) testcount. testcount + 1) xs n = n + length xs" for xs :: jsobj and n :: nat
    by (induction xs arbitrary: n) auto
  then show ?thesis by (simp add: count_each_def each_fold)
qed

lemma count_each_card: "wf_set s \<Longrightarrow> count_each s = card (keyset s)"
  using distinct_card [of "map fst (data s)"]
  by (simp add: count_each_length keyset_def wf_set_def)

lemma keyset_overlap: "keyset (overlap S E) = (keyset S \<inter> keyset E) - {''__proto__''}"
  by (simp add: overlap_def keyset_intersection)

lemma keyset_evidence: "keyset (evidence L noset) = (keyset L \<union> keyset noset) - {''__proto__''}"
  by (simp add: evidence_def keyset_union)

lemma score_eq:
  "G (replace_spaces D) = Some S \<Longrightarrow>
   score G E D = Inr (intersection S (SetArg E), count_each (intersection S (SetArg E)))"
  by (simp add: score_def js_eval_def overlap_def Let_def)

lemma score_card:
  assumes "G (replace_spaces D) = Some S" and "wf_set S"
  shows "score G E D = Inr (intersection S (SetArg E), card (keyset S \<inter> keyset E))"
proof -
  have "keyset (intersection S (SetArg E)) = keyset S \<inter> keyset E"
    using wf_no_proto [OF assms(2)] by (auto simp: keyset_intersection)
  then show ?thesis
    using score_eq [of G D S E, OF assms(1)] count_each_card [OF wf_intersection, of S "SetArg E"]
    by simp
qed

lemma keyset_new_Set_strs: "keyset (new_Set [strs syms]) = set syms - {''__proto__''}"
proof -
  have "toKey ` Str ` set syms = set syms" by (auto simp: image_image)
  then show ?thesis
    by (simp add: new_Set_def add_single strs_def keyset_add_arg keyset_empty del: add_arg.simps)
qed

lemma evidence_equals:
  "keyset noset = set syms - {''__proto__''} \<Longrightarrow>
   equals (evidence L noset) (SetArg (union_set L (SetArg (new_Set [strs syms]))))"
  by (simp add: equals_iff keyset_evidence keyset_union keyset_new_Set_strs)

text \<open>The steps of the scan.\<close>

lemma rank_update_init:
  "rank_update item4 interSet testcount ranking_init =
     ranking_init\<lparr>topddxcount := testcount, topddx := item4, topSet := interSet,
       seconddxcount := testcount, seconddx := item4, secondSet := interSet\<rparr>"
  by (simp add: rank_update_def ranking_init_def)

lemma clear_empty: "isEmpty (clear s)"
  by (simp add: clear_def isEmpty_iff keyset_empty)

lemma rank_update_greater:
  assumes "\<not> (topddxcount r = 0 \<and> seconddxcount r = 0)" and "testcount > topddxcount r"
  shows "rank_update item4 interSet testcount r =
     r\<lparr>seconddxcount := topddxcount r, seconddx := topddx r, secondSet := topSet r,
       topddxcount := testcount, topddx := item4, topSet := interSet,
       secondMultipleSet := union_set (topMultipleSet r) (SetArg (clear (secondMultipleSet r))),
       topMultipleSet := clear (topMultipleSet r)\<rparr>"
proof -
  have c: "(topddxcount r = 0 \<and> seconddxcount r = 0) = False"
    using assms(1) by blast
  show ?thesis
    unfolding rank_update_def Let_def c using assms(2) by simp
qed

lemma rank_update_tie:
  assumes "\<not> (topddxcount r = 0 \<and> seconddxcount r = 0)" and "testcount = topddxcount r"
  shows "rank_update item4 interSet testcount r =
     r\<lparr>topMultipleSet := add [Val (Str item4)] (add [Val (Str (topddx r))] (topMultipleSet r))\<rparr>"
proof -
  have c: "(topddxcount r = 0 \<and> seconddxcount r = 0) = False"
    using assms(1) by blast
  show ?thesis
    unfolding rank_update_def Let_def c using assms(2) by simp
qed

lemma rank_update_top_pos:
  "0 < topddxcount r \<Longrightarrow> 0 < topddxcount (rank_update item4 interSet testcount r)"
  by (simp add: rank_update_def Let_def)

lemma rank_update_first_pos:
  "0 < testcount \<Longrightarrow> 0 < topddxcount (rank_update item4 interSet testcount ranking_init)"
  by (simp add: rank_update_init)

lemma render_collapsed:
  "has (topMultipleSet r) (Str (seconddx r)) \<or> topddx r = seconddx r \<Longrightarrow>
   area2 (render_ranking r pg) = set_html ''No additional differentials''"
  by (simp add: render_ranking_def Let_def)

lemma rank_loop_single:
  assumes "G (replace_spaces c) = Some S"
  shows "rank_loop G E [Str c] ranking_init =
     Inr (ranking_init\<lparr>topddxcount := count_each (overlap S E), topddx := c, topSet := overlap S E,
       seconddxcount := count_each (overlap S E), seconddx := c, secondSet := overlap S E\<rparr>)"
  using assms by (simp add: score_def js_eval_def rank_update_init Let_def)

lemma rank_loop_pair:
  assumes "G (replace_spaces a) = Some A" and "G (replace_spaces b) = Some B"
    and "count_each (overlap A E) = count_each (overlap B E)" and "0 < count_each (overlap A E)"
  shows "rank_loop G E [Str a, Str b] ranking_init =
     Inr (ranking_init\<lparr>topddxcount := count_each (overlap A E), topddx := a, topSet := overlap A E,
       seconddxcount := count_each (overlap A E), seconddx := a, secondSet := overlap A E,
       topMultipleSet := add [Val (Str b)] (add [Val (Str a)] (topMultipleSet ranking_init))\<rparr>)"
  using assms by (simp add: score_def js_eval_def rank_update_init rank_update_tie Let_def)

section \<open>The claims about candidate selection and ranking\<close>

text \<open>A run of the script's data: the zone \<open>dark\<close> and the symptom \<open>ptosis\<close>.\<close>

lemma dark_ptosis_candidates:
  "select_candidates script_globals (new_Set [strs [''L sympathetic'', ''R sympathetic'']]) [''ptosis'']
     = Inr (JsSet [(''ptosis'', Str ''ptosis'')],
            JsSet [(''Cavernous Sinus'', Str ''Cavernous Sinus''), (''Horner'', Str ''Horner'')])"
  by code_simp

lemma count_each_pos: "keyset s \<noteq> {} \<Longrightarrow> 0 < count_each s"
  by (auto simp: count_each_length keyset_def)

lemma select_candidates_facts:
  assumes "select_candidates script_globals L syms = Inr (noset, finalDx)"
  shows "keyset noset = set syms - {''__proto__''}"
    and "keyset finalDx =
          {D. has ddx_list (Str D) \<and>
              (\<exists>s \<in> set syms. \<exists>S. script_globals (replace_spaces D) = Some S \<and> has S (Str s)
                        \<and> \<not> isEmpty (intersection S (SetArg L)))}"
    and "wf_set finalDx" and "str_valued finalDx"
  using select_candidates_result [of L syms] assms by auto

lemma candidate_overlap_pos:
  assumes g: "script_globals (replace_spaces D) = Some S"
    and ne: "\<not> isEmpty (intersection S (SetArg L))"
  shows "0 < count_each (overlap S (evidence L noset))"
proof -
  from ne obtain k where "k \<in> keyset S" "k \<in> keyset L" "k \<noteq> ''__proto__''"
    by (auto simp: isEmpty_iff keyset_intersection)
  then have "k \<in> keyset (overlap S (evidence L noset))"
    by (simp add: keyset_overlap keyset_evidence)
  then show ?thesis by (intro count_each_pos) blast
qed

text \<open>
  Claim C3. The candidate Set that the selection step produces holds exactly the
  diagnoses \<open>D\<close> of \<open>ddx_list\<close> for which some selected symptom \<open>s\<close> is in the
  feature Set of \<open>D\<close> and the feature Set of \<open>D\<close> has an element in common with the
  localization Set \<open>L\<close>, as it is before the symptoms are added to it. The candidates
  of the selected symptoms are joined by union: a diagnosis that qualifies for any one
  of them is kept.
\<close>

theorem candidate_selection:
  "\<exists>noset finalDx.
     select_candidates script_globals L syms = Inr (noset, finalDx)
     \<and> set (keys finalDx) =
          {Str D | D. has ddx_list (Str D) \<and>
              (\<exists>s \<in> set syms. \<exists>S. script_globals (replace_spaces D) = Some S \<and> has S (Str s)
                        \<and> \<not> isEmpty (intersection S (SetArg L)))}"
proof -
  from select_candidates_result [of L syms] obtain noset finalDx where
    r: "select_candidates script_globals L syms = Inr (noset, finalDx)"
    and k: "keyset finalDx =
          {D. has ddx_list (Str D) \<and>
              (\<exists>s \<in> set syms. \<exists>S. script_globals (replace_spaces D) = Some S \<and> has S (Str s)
                        \<and> \<not> isEmpty (intersection S (SetArg L)))}"
    and v: "str_valued finalDx"
    by (elim exE conjE) (rule that, assumption+)
  have "set (keys finalDx) = Str ` keyset finalDx"
    using v by (rule set_keys_str_valued)
  also have "\<dots> = {Str D | D. has ddx_list (Str D) \<and>
              (\<exists>s \<in> set syms. \<exists>S. script_globals (replace_spaces D) = Some S \<and> has S (Str s)
                        \<and> \<not> isEmpty (intersection S (SetArg L)))}"
    unfolding k by blast
  finally show ?thesis using r by blast
qed

theorem candidate_selection_witness:
  "set (keys (JsSet [(''Cavernous Sinus'', Str ''Cavernous Sinus''), (''Horner'', Str ''Horner'')])) =
     {Str D | D. has ddx_list (Str D) \<and>
        (\<exists>s \<in> set [''ptosis'']. \<exists>S. script_globals (replace_spaces D) = Some S \<and> has S (Str s)
           \<and> \<not> isEmpty (intersection S
                  (SetArg (new_Set [strs [''L sympathetic'', ''R sympathetic'']]))))}"
  using candidate_selection [of "new_Set [strs [''L sympathetic'', ''R sympathetic'']]" "[''ptosis'']"]
  unfolding dark_ptosis_candidates by simp

text \<open>The handler, once the localization Set and the candidates are known.\<close>

lemma localization_loop_wf:
  "localization_loop G ids finalSet = Inr L \<Longrightarrow> wf_set finalSet \<Longrightarrow> wf_set L"
proof (induction ids arbitrary: finalSet)
  case Nil
  then show ?case by simp
next
  case (Cons i ids)
  then show ?case
    by (auto simp: js_eval_def wf_union wf_intersection split: option.splits if_splits)
qed

lemma resolve_localization_wf: "resolve_localization G zs = Inr L \<Longrightarrow> wf_set L"
  using localization_loop_wf [of G zs "JsSet []" L]
  by (auto simp: resolve_localization_def new_Set_empty wf_empty Let_def split: if_splits)

lemma rank_loop_fold:
  assumes "\<forall>D \<in> set names. G (replace_spaces D) \<noteq> None"
  shows "rank_loop G E (map Str names) r =
           Inr (fold (\<lambda>D r. case score G E D of Inl e \<Rightarrow> r
                               | Inr (interSet, testcount) \<Rightarrow> rank_update D interSet testcount r)
                  names r)"
  using assms
proof (induction names arbitrary: r)
  case Nil
  then show ?case by simp
next
  case (Cons D names)
  from Cons.prems obtain S where S: "G (replace_spaces D) = Some S" by auto
  have sc: "score G E D = Inr (intersection S (SetArg E), count_each (intersection S (SetArg E)))"
    using S by (rule score_eq)
  from Cons.prems have "\<forall>D \<in> set names. G (replace_spaces D) \<noteq> None" by simp
  from Cons.IH [OF this] show ?case by (simp add: sc)
qed

lemma handler_ranked:
  assumes "resolve_localization G (zones inp) = Inr L" and "\<not> isEmpty L"
    and "symptoms inp \<noteq> []"
    and "select_candidates G L (symptoms inp) = Inr (noset, finalDx)"
    and "rank_loop G (evidence L noset) (keys finalDx) ranking_init = Inr r"
  shows "handler G inp pg =
           Inr (render_ranking r
                  (pg\<lparr>a_local := append_li (keys L) (set_html []), a_ddx := set_html []\<rparr>), None)"
  using assms by (simp add: handler_def rank_differentials_def Let_def)

text \<open>
  Claim C4. On a run of the handler that reaches the ranking (the localization Set
  \<open>L\<close> of the checked zones is not empty and a symptom is checked): the candidates
  are selected on \<open>L\<close> itself, before the symptoms are added to it; the evidence Set
  is built after the selection, and it equals the union of \<open>L\<close> and the Set of the
  checked symptom ids (an id \<^verbatim>\<open>__proto__\<close> is in neither, since no Set stores it);
  the score of a diagnosis \<open>D\<close> is the number of elements that the feature Set of
  \<open>D\<close> and the evidence Set have in common; and what the handler puts on the page
  is the rendering of the scan of these scores over the candidates, in the order of
  \<^verbatim>\<open>finalDx.keys()\<close>.
\<close>

theorem evidence_and_scores:
  assumes loc: "resolve_localization script_globals (zones inp) = Inr L"
    and ne: "\<not> isEmpty L"
    and sy: "symptoms inp \<noteq> []"
  shows "\<exists>noset finalDx r.
       select_candidates script_globals L (symptoms inp) = Inr (noset, finalDx)
     \<and> set (keys finalDx) =
          {Str D | D. has ddx_list (Str D) \<and>
              (\<exists>s \<in> set (symptoms inp). \<exists>S. script_globals (replace_spaces D) = Some S
                    \<and> has S (Str s) \<and> \<not> isEmpty (intersection S (SetArg L)))}
     \<and> equals (evidence L noset)
           (SetArg (union_set L (SetArg (new_Set [strs (symptoms inp)]))))
     \<and> keyset (evidence L noset) = keyset L \<union> (set (symptoms inp) - {''__proto__''})
     \<and> (''__proto__'' \<notin> set (symptoms inp) \<longrightarrow>
           keyset (evidence L noset) = keyset L \<union> set (symptoms inp))
     \<and> (\<forall>D S. script_globals (replace_spaces D) = Some S \<longrightarrow>
           score script_globals (evidence L noset) D
             = Inr (intersection S (SetArg (evidence L noset)),
                    card (keyset S \<inter> keyset (evidence L noset))))
     \<and> r = fold (\<lambda>D r. case score script_globals (evidence L noset) D of
                           Inl e \<Rightarrow> r
                         | Inr (interSet, testcount) \<Rightarrow> rank_update D interSet testcount r)
                (map fst (data finalDx)) ranking_init
     \<and> handler script_globals inp pg =
           Inr (render_ranking r
                  (pg\<lparr>a_local := append_li (keys L) (set_html []), a_ddx := set_html []\<rparr>),
                None)"
proof -
  from select_candidates_result [of L "symptoms inp"] obtain noset finalDx where
    sel: "select_candidates script_globals L (symptoms inp) = Inr (noset, finalDx)"
    by (elim exE conjE) (rule that, assumption)
  note f = select_candidates_facts [OF sel]
  let ?E = "evidence L noset"
  let ?names = "map fst (data finalDx)"
  let ?r = "fold (\<lambda>D r. case score script_globals ?E D of
                           Inl e \<Rightarrow> r
                         | Inr (interSet, testcount) \<Rightarrow> rank_update D interSet testcount r)
                ?names ranking_init"
  have np: "''__proto__'' \<notin> keyset L"
    using resolve_localization_wf [OF loc] by (rule wf_no_proto)
  have k: "keys finalDx = map Str ?names"
    using f(4) by (rule keys_str_valued)
  have "\<forall>D \<in> set ?names. script_globals (replace_spaces D) \<noteq> None"
  proof
    fix D assume "D \<in> set ?names"
    then have "D \<in> keyset finalDx" by (simp add: keyset_def)
    then show "script_globals (replace_spaces D) \<noteq> None"
      unfolding f(2) by auto
  qed
  then have rl: "rank_loop script_globals ?E (keys finalDx) ranking_init = Inr ?r"
    unfolding k by (rule rank_loop_fold)
  have c2: "set (keys finalDx) =
          {Str D | D. has ddx_list (Str D) \<and>
              (\<exists>s \<in> set (symptoms inp). \<exists>S. script_globals (replace_spaces D) = Some S
                    \<and> has S (Str s) \<and> \<not> isEmpty (intersection S (SetArg L)))}"
    unfolding set_keys_str_valued [OF f(4)] f(2) by blast
  have c3: "equals ?E (SetArg (union_set L (SetArg (new_Set [strs (symptoms inp)]))))"
    using f(1) by (rule evidence_equals)
  have c4: "keyset ?E = keyset L \<union> (set (symptoms inp) - {''__proto__''})"
    using f(1) np by (auto simp: keyset_evidence)
  have c5: "''__proto__'' \<notin> set (symptoms inp) \<longrightarrow> keyset ?E = keyset L \<union> set (symptoms inp)"
    using c4 by simp
  have c6: "\<forall>D S. script_globals (replace_spaces D) = Some S \<longrightarrow>
           score script_globals ?E D
             = Inr (intersection S (SetArg ?E), card (keyset S \<inter> keyset ?E))"
  proof (intro allI impI)
    fix D S assume g: "script_globals (replace_spaces D) = Some S"
    show "score script_globals ?E D
             = Inr (intersection S (SetArg ?E), card (keyset S \<inter> keyset ?E))"
      using g script_globals_wf [OF g] by (rule score_card)
  qed
  have c8: "handler script_globals inp pg =
           Inr (render_ranking ?r
                  (pg\<lparr>a_local := append_li (keys L) (set_html []), a_ddx := set_html []\<rparr>),
                None)"
    using loc ne sy sel rl by (rule handler_ranked)
  from sel c2 c3 c4 c5 c6 c8 show ?thesis by blast
qed

theorem evidence_and_scores_witness:
  "resolve_localization script_globals
     (zones \<lparr>zones = [''dark''], symptoms = [''ptosis''], other_checked = False\<rparr>)
     = Inr (JsSet [(''L sympathetic'', Str ''L sympathetic''), (''R sympathetic'', Str ''R sympathetic'')])
   \<and> \<not> isEmpty (JsSet [(''L sympathetic'', Str ''L sympathetic''),
                       (''R sympathetic'', Str ''R sympathetic'')])
   \<and> symptoms \<lparr>zones = [''dark''], symptoms = [''ptosis''], other_checked = False\<rparr> \<noteq> []
   \<and> ''__proto__'' \<notin> set (symptoms \<lparr>zones = [''dark''], symptoms = [''ptosis''],
                                       other_checked = False\<rparr>)
   \<and> script_globals (replace_spaces ''Horner'')
        = Some (new_Set [strs [''R sympathetic'', ''L sympathetic'', ''ptosis'']])
   \<and> (\<exists>noset finalDx r.
         select_candidates script_globals
           (JsSet [(''L sympathetic'', Str ''L sympathetic''), (''R sympathetic'', Str ''R sympathetic'')])
           (symptoms \<lparr>zones = [''dark''], symptoms = [''ptosis''], other_checked = False\<rparr>)
           = Inr (noset, finalDx)
       \<and> keyset (evidence (JsSet [(''L sympathetic'', Str ''L sympathetic''),
                                  (''R sympathetic'', Str ''R sympathetic'')]) noset)
           = keyset (JsSet [(''L sympathetic'', Str ''L sympathetic''),
                            (''R sympathetic'', Str ''R sympathetic'')])
             \<union> set (symptoms \<lparr>zones = [''dark''], symptoms = [''ptosis''], other_checked = False\<rparr>)
       \<and> score script_globals
             (evidence (JsSet [(''L sympathetic'', Str ''L sympathetic''),
                               (''R sympathetic'', Str ''R sympathetic'')]) noset) ''Horner''
           = Inr (intersection (new_Set [strs [''R sympathetic'', ''L sympathetic'', ''ptosis'']])
                    (SetArg (evidence (JsSet [(''L sympathetic'', Str ''L sympathetic''),
                                              (''R sympathetic'', Str ''R sympathetic'')]) noset)),
                  card (keyset (new_Set [strs [''R sympathetic'', ''L sympathetic'', ''ptosis'']])
                        \<inter> keyset (evidence (JsSet [(''L sympathetic'', Str ''L sympathetic''),
                                    (''R sympathetic'', Str ''R sympathetic'')]) noset)))
       \<and> handler script_globals
             \<lparr>zones = [''dark''], symptoms = [''ptosis''], other_checked = False\<rparr>
             \<lparr>a_local = set_html [], a_ddx = set_html [], area1 = set_html [], area2 = set_html []\<rparr>
           = Inr (render_ranking r
                    (\<lparr>a_local = set_html [], a_ddx = set_html [], area1 = set_html [],
                      area2 = set_html []\<rparr>
                     \<lparr>a_local := append_li (keys (JsSet [(''L sympathetic'', Str ''L sympathetic''),
                                                         (''R sympathetic'', Str ''R sympathetic'')]))
                                   (set_html []),
                      a_ddx := set_html []\<rparr>), None))"
proof -
  let ?I = "\<lparr>zones = [''dark''], symptoms = [''ptosis''], other_checked = False\<rparr>"
  let ?L = "JsSet [(''L sympathetic'', Str ''L sympathetic''), (''R sympathetic'', Str ''R sympathetic'')]"
  let ?P = "\<lparr>a_local = set_html [], a_ddx = set_html [], area1 = set_html [], area2 = set_html []\<rparr>"
  have h1: "resolve_localization script_globals (zones ?I) = Inr ?L"
    by code_simp
  have h2: "\<not> isEmpty ?L"
    by (simp add: isEmpty_iff keyset_def)
  have h3: "symptoms ?I \<noteq> []"
    by simp
  have p: "''__proto__'' \<notin> set (symptoms ?I)"
    by simp
  have g: "script_globals (replace_spaces ''Horner'')
        = Some (new_Set [strs [''R sympathetic'', ''L sympathetic'', ''ptosis'']])"
    by (simp add: script_globals_def script_globals_list_def replace_spaces_def is_space_def)
  from evidence_and_scores [OF h1 h2 h3, of ?P] obtain noset finalDx r where
    a: "select_candidates script_globals ?L (symptoms ?I) = Inr (noset, finalDx)"
    and b: "''__proto__'' \<notin> set (symptoms ?I) \<longrightarrow>
              keyset (evidence ?L noset) = keyset ?L \<union> set (symptoms ?I)"
    and c: "\<forall>D S. script_globals (replace_spaces D) = Some S \<longrightarrow>
           score script_globals (evidence ?L noset) D
             = Inr (intersection S (SetArg (evidence ?L noset)),
                    card (keyset S \<inter> keyset (evidence ?L noset)))"
    and d: "handler script_globals ?I ?P =
           Inr (render_ranking r
                  (?P\<lparr>a_local := append_li (keys ?L) (set_html []), a_ddx := set_html []\<rparr>), None)"
    by (elim exE conjE) (rule that, assumption+)
  from b p have b': "keyset (evidence ?L noset) = keyset ?L \<union> set (symptoms ?I)"
    by (rule mp)
  from c g have c': "score script_globals (evidence ?L noset) ''Horner''
             = Inr (intersection (new_Set [strs [''R sympathetic'', ''L sympathetic'', ''ptosis'']])
                      (SetArg (evidence ?L noset)),
                    card (keyset (new_Set [strs [''R sympathetic'', ''L sympathetic'', ''ptosis'']])
                          \<inter> keyset (evidence ?L noset)))"
    by blast
  from a b' c' d have "\<exists>noset finalDx r.
         select_candidates script_globals ?L (symptoms ?I) = Inr (noset, finalDx)
       \<and> keyset (evidence ?L noset) = keyset ?L \<union> set (symptoms ?I)
       \<and> score script_globals (evidence ?L noset) ''Horner''
           = Inr (intersection (new_Set [strs [''R sympathetic'', ''L sympathetic'', ''ptosis'']])
                    (SetArg (evidence ?L noset)),
                  card (keyset (new_Set [strs [''R sympathetic'', ''L sympathetic'', ''ptosis'']])
                        \<inter> keyset (evidence ?L noset)))
       \<and> handler script_globals ?I ?P
           = Inr (render_ranking r
                    (?P\<lparr>a_local := append_li (keys ?L) (set_html []), a_ddx := set_html []\<rparr>), None)"
    by blast
  with h1 h2 h3 p g show ?thesis
    by (intro conjI)
qed

text \<open>
  The first candidate of a scan is handled by the branch that tests both counts for 0
  (lines 503 to 509): its score is greater than the top score 0, and it becomes the
  second place itself; the empty name that was the top is not kept.
\<close>

theorem rank_update_first_counterexample:
  "topddxcount ranking_init < 3
   \<and> topddx ranking_init = []
   \<and> seconddx (rank_update ''Cavernous Sinus''
        (new_Set [strs [''R sympathetic'', ''L sympathetic'', ''ptosis'']]) 3 ranking_init)
       = ''Cavernous Sinus''"
  by (simp add: rank_update_def ranking_init_def)

text \<open>
  Claim C5, amended. Once the scan holds a first candidate (the top and the second
  count are not both 0), a candidate whose score is strictly greater than the top
  score demotes the previous top (name, overlap Set and count) to second place, which
  discards the previous second place, becomes the top itself, and leaves the
  tied-with-top group empty.
\<close>

theorem rank_update_promotes:
  assumes "\<not> (topddxcount r = 0 \<and> seconddxcount r = 0)" and "topddxcount r < testcount"
  shows "seconddx (rank_update item4 interSet testcount r) = topddx r
     \<and> secondSet (rank_update item4 interSet testcount r) = topSet r
     \<and> seconddxcount (rank_update item4 interSet testcount r) = topddxcount r
     \<and> topddx (rank_update item4 interSet testcount r) = item4
     \<and> topSet (rank_update item4 interSet testcount r) = interSet
     \<and> topddxcount (rank_update item4 interSet testcount r) = testcount
     \<and> isEmpty (topMultipleSet (rank_update item4 interSet testcount r))
     \<and> keys (topMultipleSet (rank_update item4 interSet testcount r)) = []"
  using assms by (simp add: rank_update_greater clear_def keys_eq isEmpty_iff keyset_empty)

theorem rank_update_promotes_witness:
  "\<not> (topddxcount (ranking_init\<lparr>topddxcount := 2, topddx := ''L INO'', seconddxcount := 2,
                       seconddx := ''L INO''\<rparr>) = 0
        \<and> seconddxcount (ranking_init\<lparr>topddxcount := 2, topddx := ''L INO'', seconddxcount := 2,
                       seconddx := ''L INO''\<rparr>) = 0)
   \<and> topddxcount (ranking_init\<lparr>topddxcount := 2, topddx := ''L INO'', seconddxcount := 2,
                       seconddx := ''L INO''\<rparr>) < 3
   \<and> seconddx (rank_update ''Dorsal Pons'' (new_Set [strs [''L MLF'', ''R LR'', ''L LR'']]) 3
         (ranking_init\<lparr>topddxcount := 2, topddx := ''L INO'', seconddxcount := 2,
                       seconddx := ''L INO''\<rparr>)) = ''L INO''
   \<and> topddx (rank_update ''Dorsal Pons'' (new_Set [strs [''L MLF'', ''R LR'', ''L LR'']]) 3
         (ranking_init\<lparr>topddxcount := 2, topddx := ''L INO'', seconddxcount := 2,
                       seconddx := ''L INO''\<rparr>)) = ''Dorsal Pons''
   \<and> isEmpty (topMultipleSet (rank_update ''Dorsal Pons''
         (new_Set [strs [''L MLF'', ''R LR'', ''L LR'']]) 3
         (ranking_init\<lparr>topddxcount := 2, topddx := ''L INO'', seconddxcount := 2,
                       seconddx := ''L INO''\<rparr>)))"
proof -
  let ?r = "ranking_init\<lparr>topddxcount := 2, topddx := ''L INO'', seconddxcount := 2,
                       seconddx := ''L INO''\<rparr>"
  have a: "\<not> (topddxcount ?r = 0 \<and> seconddxcount ?r = 0)" by simp
  have b: "topddxcount ?r < 3" by simp
  show ?thesis
    using a b rank_update_promotes [OF a b, of "''Dorsal Pons''"
        "new_Set [strs [''L MLF'', ''R LR'', ''L LR'']]"]
    by simp
qed

text \<open>
  Claim C9. If there is exactly one candidate diagnosis, the first branch of the scan
  makes it the top and the second place, with the same name, overlap Set and count, so
  the second output is "No additional differentials".
\<close>

theorem single_candidate:
  assumes "keys finalDx = [Str c]" and "G (replace_spaces c) = Some S"
  shows "\<exists>r. rank_differentials G L noset finalDx = Inr r
           \<and> topddx r = c \<and> seconddx r = c
           \<and> topddxcount r = seconddxcount r
           \<and> topSet r = secondSet r
           \<and> area2 (render_ranking r pg) = set_html ''No additional differentials''"
proof -
  let ?E = "evidence L noset"
  let ?r = "ranking_init\<lparr>topddxcount := count_each (overlap S ?E), topddx := c,
       topSet := overlap S ?E, seconddxcount := count_each (overlap S ?E), seconddx := c,
       secondSet := overlap S ?E\<rparr>"
  have "rank_differentials G L noset finalDx = Inr ?r"
    unfolding rank_differentials_def Let_def assms(1)
    by (rule rank_loop_single [of G c S ?E, OF assms(2)])
  moreover have "area2 (render_ranking ?r pg) = set_html ''No additional differentials''"
    by (rule render_collapsed) simp
  ultimately show ?thesis by simp
qed

theorem single_candidate_witness:
  "keys (JsSet [(''Horner'', Str ''Horner'')]) = [Str ''Horner'']
   \<and> script_globals (replace_spaces ''Horner'')
        = Some (new_Set [strs [''R sympathetic'', ''L sympathetic'', ''ptosis'']])
   \<and> (\<exists>r. rank_differentials script_globals (new_Set [strs [''L sympathetic'', ''R sympathetic'']])
              (new_Set [Val (Str ''ptosis'')]) (JsSet [(''Horner'', Str ''Horner'')]) = Inr r
           \<and> topddx r = ''Horner'' \<and> seconddx r = ''Horner''
           \<and> area2 (render_ranking r
                 \<lparr>a_local = set_html [], a_ddx = set_html [], area1 = set_html [],
                  area2 = set_html []\<rparr>) = set_html ''No additional differentials'')"
proof -
  have k: "keys (JsSet [(''Horner'', Str ''Horner'')]) = [Str ''Horner'']"
    by (simp add: keys_eq)
  have g: "script_globals (replace_spaces ''Horner'')
        = Some (new_Set [strs [''R sympathetic'', ''L sympathetic'', ''ptosis'']])"
    by (simp add: script_globals_def script_globals_list_def replace_spaces_def is_space_def)
  show ?thesis
    using k g single_candidate [of "JsSet [(''Horner'', Str ''Horner'')]" "''Horner''"
        script_globals "new_Set [strs [''R sympathetic'', ''L sympathetic'', ''ptosis'']]"
        "new_Set [strs [''L sympathetic'', ''R sympathetic'']]"
        "new_Set [Val (Str ''ptosis'')]"
        "\<lparr>a_local = set_html [], a_ddx = set_html [], area1 = set_html [], area2 = set_html []\<rparr>",
        OF k g]
    by blast
qed

text \<open>
  Claim C2. If the selection step leaves exactly two candidate diagnoses and their
  overlap counts with the evidence Set are equal, both names are in the tied-for-top
  group and the second output is "No additional differentials". In general the second
  output is that text whenever the tied-for-top group holds the name of the second
  place, or the top and the second place are the same diagnosis.
\<close>

theorem two_way_tie:
  assumes sel: "select_candidates script_globals L syms = Inr (noset, finalDx)"
    and two: "keys finalDx = [Str a, Str b]"
    and sa: "score script_globals (evidence L noset) a = Inr (ia, n)"
    and sb: "score script_globals (evidence L noset) b = Inr (ib, n)"
  shows "(\<exists>r. rank_differentials script_globals L noset finalDx = Inr r
            \<and> has (topMultipleSet r) (Str a) \<and> has (topMultipleSet r) (Str b)
            \<and> area2 (render_ranking r pg) = set_html ''No additional differentials'')
       \<and> (\<forall>r' pg'. has (topMultipleSet r') (Str (seconddx r')) \<or> topddx r' = seconddx r' \<longrightarrow>
            area2 (render_ranking r' pg') = set_html ''No additional differentials'')"
proof (intro conjI allI impI)
  fix r' :: ranking and pg' :: page
  assume "has (topMultipleSet r') (Str (seconddx r')) \<or> topddx r' = seconddx r'"
  then show "area2 (render_ranking r' pg') = set_html ''No additional differentials''"
    by (rule render_collapsed)
next
  note f = select_candidates_facts [OF sel]
  let ?E = "evidence L noset"
  have "set (keys finalDx) = Str ` keyset finalDx"
    using f(4) by (rule set_keys_str_valued)
  then have mem: "a \<in> keyset finalDx" "b \<in> keyset finalDx"
    unfolding two by auto
  have np: "a \<noteq> ''__proto__''" "b \<noteq> ''__proto__''"
    using mem wf_no_proto [OF f(3)] by auto
  from mem(1) obtain A where A: "script_globals (replace_spaces a) = Some A"
    and Ane: "\<not> isEmpty (intersection A (SetArg L))"
    unfolding f(2) by blast
  from mem(2) obtain B where B: "script_globals (replace_spaces b) = Some B"
    unfolding f(2) by blast
  have na: "n = count_each (overlap A ?E)"
    using sa by (auto simp: score_def js_eval_def A Let_def)
  have nb: "n = count_each (overlap B ?E)"
    using sb by (auto simp: score_def js_eval_def B Let_def)
  have pos: "0 < count_each (overlap A ?E)"
    using A Ane by (rule candidate_overlap_pos)
  let ?r = "ranking_init\<lparr>topddxcount := count_each (overlap A ?E), topddx := a,
       topSet := overlap A ?E, seconddxcount := count_each (overlap A ?E), seconddx := a,
       secondSet := overlap A ?E,
       topMultipleSet := add [Val (Str b)] (add [Val (Str a)] (topMultipleSet ranking_init))\<rparr>"
  have eq: "count_each (overlap A ?E) = count_each (overlap B ?E)"
    using na nb by simp
  have r: "rank_differentials script_globals L noset finalDx = Inr ?r"
    unfolding rank_differentials_def Let_def two
    by (rule rank_loop_pair [of script_globals a A b B ?E, OF A B eq pos])
  have ha: "has (topMultipleSet ?r) (Str a)" and hb: "has (topMultipleSet ?r) (Str b)"
    using np by (simp_all add: has_iff keyset_add_val)
  have "area2 (render_ranking ?r pg) = set_html ''No additional differentials''"
    by (rule render_collapsed) (use ha in simp)
  with r ha hb
  show "\<exists>r. rank_differentials script_globals L noset finalDx = Inr r
            \<and> has (topMultipleSet r) (Str a) \<and> has (topMultipleSet r) (Str b)
            \<and> area2 (render_ranking r pg) = set_html ''No additional differentials''"
    by blast
qed

theorem two_way_tie_witness:
  "select_candidates script_globals (new_Set [strs [''L sympathetic'', ''R sympathetic'']]) [''ptosis'']
     = Inr (JsSet [(''ptosis'', Str ''ptosis'')],
            JsSet [(''Cavernous Sinus'', Str ''Cavernous Sinus''), (''Horner'', Str ''Horner'')])
   \<and> keys (JsSet [(''Cavernous Sinus'', Str ''Cavernous Sinus''), (''Horner'', Str ''Horner'')])
        = [Str ''Cavernous Sinus'', Str ''Horner'']
   \<and> (\<exists>ia. score script_globals
              (evidence (new_Set [strs [''L sympathetic'', ''R sympathetic'']])
                 (JsSet [(''ptosis'', Str ''ptosis'')])) ''Cavernous Sinus'' = Inr (ia, 3))
   \<and> (\<exists>ib. score script_globals
              (evidence (new_Set [strs [''L sympathetic'', ''R sympathetic'']])
                 (JsSet [(''ptosis'', Str ''ptosis'')])) ''Horner'' = Inr (ib, 3))
   \<and> (\<exists>r. rank_differentials script_globals (new_Set [strs [''L sympathetic'', ''R sympathetic'']])
              (JsSet [(''ptosis'', Str ''ptosis'')])
              (JsSet [(''Cavernous Sinus'', Str ''Cavernous Sinus''), (''Horner'', Str ''Horner'')])
            = Inr r
          \<and> has (topMultipleSet r) (Str ''Cavernous Sinus'')
          \<and> has (topMultipleSet r) (Str ''Horner'')
          \<and> area2 (render_ranking r
                \<lparr>a_local = set_html [], a_ddx = set_html [], area1 = set_html [],
                 area2 = set_html []\<rparr>) = set_html ''No additional differentials'')"
proof -
  let ?L = "new_Set [strs [''L sympathetic'', ''R sympathetic'']]"
  let ?N = "JsSet [(''ptosis'', Str ''ptosis'')]"
  let ?F = "JsSet [(''Cavernous Sinus'', Str ''Cavernous Sinus''), (''Horner'', Str ''Horner'')]"
  have k: "keys ?F = [Str ''Cavernous Sinus'', Str ''Horner'']"
    by (simp add: keys_eq)
  have sa: "score script_globals (evidence ?L ?N) ''Cavernous Sinus''
              = Inr (JsSet [(''R sympathetic'', Str ''R sympathetic''),
                            (''L sympathetic'', Str ''L sympathetic''),
                            (''ptosis'', Str ''ptosis'')], 3)"
    by code_simp
  have sb: "score script_globals (evidence ?L ?N) ''Horner''
              = Inr (JsSet [(''R sympathetic'', Str ''R sympathetic''),
                            (''L sympathetic'', Str ''L sympathetic''),
                            (''ptosis'', Str ''ptosis'')], 3)"
    by code_simp
  show ?thesis
    using dark_ptosis_candidates k sa sb
      two_way_tie [OF dark_ptosis_candidates k sa sb,
        of "\<lparr>a_local = set_html [], a_ddx = set_html [], area1 = set_html [], area2 = set_html []\<rparr>"]
    by blast
qed

section \<open>The store: what the handler writes\<close>



























end
